theory Spec2Isabelle
  imports Main "HOL-Library.Word"
begin

unbundle bit_operations_syntax

text \<open>
  A shallow embedding of libntstm's streams (\<open>io.cpp\<close> with \<open>ntstm/io.hpp\<close>,
  \<open>ntstm/fdio.hpp\<close> and \<open>ntstm/bufio.hpp\<close>): the errno check and the full read and
  write of \<open>NtIoFileStream\<close>, the read of \<open>NtIoInputBuffer\<close> and the write of
  \<open>NtIoOutputBuffer\<close>, followed by the properties proved of them.
\<close>

section \<open>Machine types and outcomes\<close>

text \<open>
  The library is modelled for a platform where \<open>size_t\<close> is an unsigned 64-bit
  integer whose arithmetic wraps around, \<open>ssize_t\<close> is the same 64 bits read as
  two's complement (compared with \<open><s\<close>), \<open>int\<close> has 32 bits and \<open>int8_t\<close>
  is one byte. Memory reached through a pointer is the list of bytes found from the
  pointer onwards, so that advancing a pointer by \<open>n\<close> is \<open>drop n\<close>.
\<close>

type_synonym size_t = "64 word"
type_synonym ssize_t = "64 word"
type_synonym int8_t = "8 word"

text \<open>The enumeration \<open>NtIoErrorCode\<close> of \<open>ntstm/io.hpp\<close>.\<close>

datatype NtIoErrorCode =
    eioInvalidHandle
  | eioPermission
  | eioStreamClosed
  | eioNonBlocking
  | eioInterrupted
  | eioAllocation
  | eioMalformed
  | eioMax

text \<open>
  The ways a member function declared \<open>throw (NtIoException)\<close> can fail to return:
  it throws \<open>NtIoException\<close> with an error code; an exception of another type
  leaves it, which the exception specification turns into a call of
  \<open>std::unexpected()\<close>; or it executes an operation that C++ leaves undefined
  (a shift of an \<open>int\<close> by 32 or more, a \<open>memcpy\<close> outside its buffers).
\<close>

datatype failure =
    NtIoException NtIoErrorCode
  | Unexpected
  | Undefined

text \<open>The two standard exceptions \<open>std::vector\<close> throws when it allocates.\<close>

datatype std_exception = length_error | bad_alloc

text \<open>
  \<open>memcpy dst src n\<close> overwrites the first \<open>n\<close> bytes of \<open>dst\<close> with the first
  \<open>n\<close> bytes of \<open>src\<close> and returns the new contents of \<open>dst\<close>; \<open>None\<close> when
  either buffer holds fewer than \<open>n\<close> bytes, where C leaves the call undefined.
\<close>

definition memcpy :: "int8_t list \<Rightarrow> int8_t list \<Rightarrow> size_t \<Rightarrow> int8_t list option" where
  "memcpy dst src n =
     (if unat n \<le> length src \<and> unat n \<le> length dst
      then Some (take (unat n) src @ drop (unat n) dst)
      else None)"

section \<open>The file stream\<close>

text \<open>
  The values of the \<open>errno\<close> macros the switch of \<open>NtIoFileStreamErrnoCheck\<close>
  names come from the platform's \<open><cerrno>\<close>, so they are a parameter of the model.
\<close>

record errno_h =
  EPERM :: int
  EIO :: int
  EPIPE :: int
  EAGAIN :: int
  EWOULDBLOCK :: int
  EINTR :: int
  EBADF :: int
  EINVAL :: int
  EISDIR :: int

text \<open>
  \<open>NtIoFileStreamErrnoCheck\<close>: the switch over \<open>errno\<close>, its case groups in the order
  of the source. Every branch throws; the result type still has a branch for a normal
  return, so that the callers below are written as in the source.
\<close>

definition NtIoFileStreamErrnoCheck :: "errno_h \<Rightarrow> int \<Rightarrow> failure + unit" where
  "NtIoFileStreamErrnoCheck h errno =
     (if errno = EPERM h then Inl (NtIoException eioPermission)
      else if errno = EIO h \<or> errno = EPIPE h then Inl (NtIoException eioStreamClosed)
      else if errno = EAGAIN h \<or> errno = EWOULDBLOCK h then Inl (NtIoException eioNonBlocking)
      else if errno = EINTR h then Inl (NtIoException eioInterrupted)
      else if errno = EBADF h \<or> errno = EINVAL h \<or> errno = EISDIR h
        then Inl (NtIoException eioInvalidHandle)
      else Inl (NtIoException eioInvalidHandle))"

text \<open>
  One call of the underlying \<open>::read\<close> or \<open>::write\<close> is a function from the byte
  count it is asked for to the value it returns and the value of \<open>errno\<close> after it.
  The behaviour of the file descriptor is the list of the calls it will answer, in
  order; each loop below consumes one element per call and returns the calls it has
  not made next to its outcome. \<open>None\<close> means that the list ended while the loop
  was still asking.
\<close>

type_synonym attempt = "size_t \<Rightarrow> ssize_t \<times> int"

text \<open>
  The loop of \<open>NtIoFileStream::read\<close>, from the state \<open>readSize\<close>. A normal return
  carries the final value of \<open>readSize\<close>.
\<close>

fun read_loop ::
  "errno_h \<Rightarrow> attempt list \<Rightarrow> size_t \<Rightarrow> size_t \<Rightarrow> ((failure + size_t) \<times> attempt list) option"
where
  "read_loop h [] readSize size' =
     (if readSize < size' then None else Some (Inr readSize, []))"
| "read_loop h (a # fd) readSize size' =
     (if readSize < size' then
        (case a (size' - readSize) of (newSize, errno) \<Rightarrow>
           if 0 <s newSize then read_loop h fd (readSize + newSize) size'
           else if newSize = 0 then Some (Inl (NtIoException eioStreamClosed), fd)
           else (case NtIoFileStreamErrnoCheck h errno of
                   Inl e \<Rightarrow> Some (Inl e, fd)
                 | Inr _ \<Rightarrow> read_loop h fd readSize size'))
      else Some (Inr readSize, a # fd))"

definition NtIoFileStream_read ::
  "errno_h \<Rightarrow> attempt list \<Rightarrow> size_t \<Rightarrow> ((failure + size_t) \<times> attempt list) option"
where
  "NtIoFileStream_read h fd size' = read_loop h fd 0 size'"

text \<open>The loop of \<open>NtIoFileStream::write\<close>: a result of zero goes to the errno check.\<close>

fun write_loop ::
  "errno_h \<Rightarrow> attempt list \<Rightarrow> size_t \<Rightarrow> size_t \<Rightarrow> ((failure + size_t) \<times> attempt list) option"
where
  "write_loop h [] writeSize size' =
     (if writeSize < size' then None else Some (Inr writeSize, []))"
| "write_loop h (a # fd) writeSize size' =
     (if writeSize < size' then
        (case a (size' - writeSize) of (newSize, errno) \<Rightarrow>
           if 0 <s newSize then write_loop h fd (writeSize + newSize) size'
           else (case NtIoFileStreamErrnoCheck h errno of
                   Inl e \<Rightarrow> Some (Inl e, fd)
                 | Inr _ \<Rightarrow> write_loop h fd writeSize size'))
      else Some (Inr writeSize, a # fd))"

definition NtIoFileStream_write ::
  "errno_h \<Rightarrow> attempt list \<Rightarrow> size_t \<Rightarrow> ((failure + size_t) \<times> attempt list) option"
where
  "NtIoFileStream_write h fd size' = write_loop h fd 0 size'"

section \<open>The input buffer\<close>

text \<open>
  \<open>NtIoInputBuffer\<close>: the remained size and the pointer to the current input, as the
  bytes found from that pointer onwards.
\<close>

record NtIoInputBuffer =
  size_i :: size_t
  buffer_i :: "int8_t list"

text \<open>
  \<open>NtIoInputBuffer::read\<close>. The result is the outcome, the contents of
  \<open>requestBuffer\<close> after the call and the object after the call.
\<close>

definition NtIoInputBuffer_read ::
  "int8_t list \<Rightarrow> size_t \<Rightarrow> NtIoInputBuffer \<Rightarrow> (failure + unit) \<times> int8_t list \<times> NtIoInputBuffer"
where
  "NtIoInputBuffer_read requestBuffer requestSize this =
     (if size_i this < requestSize
      then (Inl (NtIoException eioStreamClosed), requestBuffer, this)
      else
        (case memcpy requestBuffer (buffer_i this) requestSize of
           None \<Rightarrow> (Inl Undefined, requestBuffer, this)
         | Some requestBuffer' \<Rightarrow>
             (Inr (), requestBuffer',
              this\<lparr>buffer_i := drop (unat requestSize) (buffer_i this),
                   size_i := size_i this - requestSize\<rparr>)))"

section \<open>The output buffer\<close>

text \<open>
  \<open>std::vector<int8_t>\<close> is the standard library's, not this repository's: it is
  modelled from its contract as its elements and its capacity. What the contract leaves
  to the implementation of the vector and of its allocator is a parameter: the largest
  size the vector accepts, which allocations succeed, and the capacity the vector picks
  when \<open>resize\<close> has to reallocate. \<open>reserve n\<close> is taken to allocate exactly
  \<open>n\<close>, as the common implementations do, and a new vector to have capacity 0.
\<close>

record vector =
  elems :: "int8_t list"
  capacity :: size_t

record vector_impl =
  max_size :: size_t
  can_allocate :: "size_t \<Rightarrow> bool"
  regrow :: "size_t \<Rightarrow> size_t \<Rightarrow> size_t"

definition vsize :: "vector \<Rightarrow> size_t" where
  "vsize v = word_of_nat (length (elems v))"

definition reserve :: "vector_impl \<Rightarrow> size_t \<Rightarrow> vector \<Rightarrow> std_exception + vector" where
  "reserve al n v =
     (if max_size al < n then Inl length_error
      else if n \<le> capacity v then Inr v
      else if can_allocate al n then Inr (v\<lparr>capacity := n\<rparr>)
      else Inl bad_alloc)"

definition resize :: "vector_impl \<Rightarrow> size_t \<Rightarrow> vector \<Rightarrow> std_exception + vector" where
  "resize al n v =
     (if n \<le> vsize v then Inr (v\<lparr>elems := take (unat n) (elems v)\<rparr>)
      else if n \<le> capacity v
        then Inr (v\<lparr>elems := elems v @ replicate (unat n - length (elems v)) 0\<rparr>)
      else if max_size al < n then Inl length_error
      else if can_allocate al (regrow al (capacity v) n)
        then Inr \<lparr>elems = elems v @ replicate (unat n - length (elems v)) 0,
                  capacity = regrow al (capacity v) n\<rparr>
      else Inl bad_alloc)"

record NtIoOutputBuffer =
  buffer_o :: vector
  memoryStepping :: size_t

text \<open>The constructor: an empty vector, and the memory stepping (5 when omitted).\<close>

definition new_NtIoOutputBuffer :: "size_t \<Rightarrow> NtIoOutputBuffer" where
  "new_NtIoOutputBuffer ms = \<lparr>buffer_o = \<lparr>elems = [], capacity = 0\<rparr>, memoryStepping = ms\<rparr>"

definition NtIoOutputBuffer_size :: "NtIoOutputBuffer \<Rightarrow> size_t" where
  "NtIoOutputBuffer_size this = vsize (buffer_o this)"

definition NtIoOutputBuffer_data :: "NtIoOutputBuffer \<Rightarrow> int8_t list" where
  "NtIoOutputBuffer_data this = elems (buffer_o this)"

text \<open>
  \<open>stepSize\<close> is \<open>1 << (memoryStepping + 1)\<close>: the sum is computed in \<open>size_t\<close>, the
  shift in \<open>int\<close> (the type of the literal), and the \<open>int\<close> is then converted to the
  \<open>size_t\<close> the function returns, with sign extension. A shift by 32 or more is
  undefined.
\<close>

definition stepSize :: "NtIoOutputBuffer \<Rightarrow> size_t option" where
  "stepSize this =
     (let n = memoryStepping this + 1
      in if n < 32 then Some (scast (push_bit (unat n) (1 :: 32 word))) else None)"

text \<open>The rounding of line 147: \<open>((newSize + maskStepSize) | maskStepSize) ^ maskStepSize\<close>.\<close>

definition newContainerSize_of :: "size_t \<Rightarrow> size_t \<Rightarrow> size_t" where
  "newContainerSize_of newSize maskStepSize =
     ((newSize + maskStepSize) OR maskStepSize) XOR maskStepSize"

text \<open>
  \<open>NtIoOutputBuffer::write\<close>. Only the call of \<open>reserve\<close> is inside the \<open>try\<close>
  block; an exception of \<open>resize\<close> leaves the function.
\<close>

definition NtIoOutputBuffer_write ::
  "vector_impl \<Rightarrow> int8_t list \<Rightarrow> size_t \<Rightarrow> NtIoOutputBuffer \<Rightarrow> (failure + unit) \<times> NtIoOutputBuffer"
where
  "NtIoOutputBuffer_write al requestBuffer requestSize this =
     (if requestSize = 0 then (Inr (), this)
      else
        let oldSize = vsize (buffer_o this);
            newSize = oldSize + requestSize
        in case stepSize this of
             None \<Rightarrow> (Inl Undefined, this)
           | Some step \<Rightarrow>
               let maskStepSize = step - 1;
                   newContainerSize = newContainerSize_of newSize maskStepSize
               in case (if capacity (buffer_o this) < newContainerSize
                        then reserve al newContainerSize (buffer_o this)
                        else Inr (buffer_o this)) of
                    Inl length_error \<Rightarrow> (Inl (NtIoException eioAllocation), this)
                  | Inl bad_alloc \<Rightarrow> (Inl (NtIoException eioAllocation), this)
                  | Inr v \<Rightarrow>
                      (case resize al newSize v of
                         Inl _ \<Rightarrow> (Inl Unexpected, this\<lparr>buffer_o := v\<rparr>)
                       | Inr v' \<Rightarrow>
                           (case memcpy (drop (unat oldSize) (elems v')) requestBuffer requestSize of
                              None \<Rightarrow> (Inl Undefined, this\<lparr>buffer_o := v'\<rparr>)
                            | Some tail \<Rightarrow>
                                (Inr (),
                                 this\<lparr>buffer_o :=
                                        v'\<lparr>elems := take (unat oldSize) (elems v') @ tail\<rparr>\<rparr>))))"

section \<open>Callers, contracts and properties\<close>

text \<open>The constructor of \<open>NtIoInputBuffer\<close>.\<close>

definition new_NtIoInputBuffer :: "int8_t list \<Rightarrow> size_t \<Rightarrow> NtIoInputBuffer" where
  "new_NtIoInputBuffer buffer size' = \<lparr>size_i = size', buffer_i = buffer\<rparr>"

text \<open>
  A caller that writes the requests in order; an exception ends the sequence.
\<close>

fun write_all ::
  "vector_impl \<Rightarrow> (int8_t list \<times> size_t) list \<Rightarrow> NtIoOutputBuffer
     \<Rightarrow> (failure + unit) \<times> NtIoOutputBuffer"
where
  "write_all al [] this = (Inr (), this)"
| "write_all al ((requestBuffer, requestSize) # requests) this =
     (case NtIoOutputBuffer_write al requestBuffer requestSize this of
        (Inr _, this') \<Rightarrow> write_all al requests this'
      | (Inl e, this') \<Rightarrow> (Inl e, this'))"

text \<open>A request as a caller makes it: a buffer and its length.\<close>

abbreviation (input) sized :: "int8_t list \<Rightarrow> int8_t list \<times> size_t" where
  "sized c \<equiv> (c, word_of_nat (length c))"

text \<open>
  The contract of \<open>::read\<close> and \<open>::write\<close>: a call never reports more bytes than
  it was asked for.
\<close>

definition posix_results :: "attempt list \<Rightarrow> bool" where
  "posix_results fd \<longleftrightarrow> (\<forall>a\<in>set fd. \<forall>c. sint (fst (a c)) \<le> uint c)"

text \<open>
  The progress of a read over its first calls, for stating what the loop does with a
  whole list of calls: \<open>readSize_after size ps readSize\<close> adds to \<open>readSize\<close>
  the count each call of \<open>ps\<close> returns, asked for what is still missing, and
  \<open>positive_counts size ps readSize\<close> holds when each of these calls is made with
  bytes still missing and returns a positive count.
\<close>

fun readSize_after :: "size_t \<Rightarrow> attempt list \<Rightarrow> size_t \<Rightarrow> size_t" where
  "readSize_after size' [] readSize = readSize"
| "readSize_after size' (a # ps) readSize =
     readSize_after size' ps (readSize + fst (a (size' - readSize)))"

fun positive_counts :: "size_t \<Rightarrow> attempt list \<Rightarrow> size_t \<Rightarrow> bool" where
  "positive_counts size' [] readSize = True"
| "positive_counts size' (a # ps) readSize =
     (readSize < size' \<and> 0 <s fst (a (size' - readSize)) \<and>
      positive_counts size' ps (readSize + fst (a (size' - readSize))))"

text \<open>
  The case labels of the switch in \<open>NtIoFileStreamErrnoCheck\<close> name different
  values, except that \<open>EWOULDBLOCK\<close> may be \<open>EAGAIN\<close>; the two are in the same
  group.
\<close>

definition case_labels_distinct :: "errno_h \<Rightarrow> bool" where
  "case_labels_distinct h \<longleftrightarrow>
     distinct [EPERM h, EIO h, EPIPE h, EAGAIN h, EINTR h, EBADF h, EINVAL h, EISDIR h] \<and>
     EWOULDBLOCK h \<notin> {EPERM h, EIO h, EPIPE h, EINTR h, EBADF h, EINVAL h, EISDIR h}"

text \<open>
  The largest size of an object. The common implementations of \<open>std::vector\<close>
  accept no size above it.
\<close>

definition PTRDIFF_MAX :: size_t where
  "PTRDIFF_MAX = 2 ^ 63 - 1"

text \<open>
  \<open>r\<close> is the least multiple of \<open>step\<close> that is not below \<open>n\<close>.
\<close>

definition least_multiple_above :: "nat \<Rightarrow> nat \<Rightarrow> nat \<Rightarrow> bool" where
  "least_multiple_above step n r \<longleftrightarrow>
     step dvd r \<and> n \<le> r \<and> (\<forall>m. step dvd m \<and> n \<le> m \<longrightarrow> r \<le> m)"

text \<open>\<open>c\<close> is \<open>step\<close> times a power of two.\<close>

definition power_of_two_multiple :: "nat \<Rightarrow> nat \<Rightarrow> bool" where
  "power_of_two_multiple step c \<longleftrightarrow> (\<exists>j. c = 2 ^ j * step)"

section \<open>Concrete inputs\<close>

text \<open>
  Values of the nine macros as in the C runtime of Windows, where all of them differ
  (on Linux \<open>EWOULDBLOCK\<close> is another name of \<open>EAGAIN\<close>).
\<close>

definition errno_example :: errno_h where
  "errno_example = \<lparr>EPERM = 1, EIO = 5, EPIPE = 32, EAGAIN = 11, EWOULDBLOCK = 140,
     EINTR = 4, EBADF = 9, EINVAL = 22, EISDIR = 21\<rparr>"

text \<open>
  Calls for the examples: one that moves up to \<open>k\<close> bytes, one at the end of the
  stream, one that fails with a given \<open>errno\<close>; and a descriptor that gives three
  bytes first and up to four on each later call.
\<close>

definition transfers :: "ssize_t \<Rightarrow> attempt" where
  "transfers k count = (if count < k then count else k, 0)"

definition end_of_stream :: attempt where
  "end_of_stream count = (0, 0)"

definition fails_with :: "int \<Rightarrow> attempt" where
  "fails_with e count = (- 1, e)"

definition fd_example :: "attempt list" where
  "fd_example = [transfers 3, transfers 4, transfers 4, transfers 4, transfers 4]"

text \<open>An implementation whose allocator never runs out of memory.\<close>

definition al_example :: vector_impl where
  "al_example = \<lparr>max_size = PTRDIFF_MAX, can_allocate = (\<lambda>n. True),
     regrow = (\<lambda>c n. max n (2 * c))\<rparr>"

text \<open>
  An implementation whose allocator has 64 bytes left, and an output buffer of 60 bytes
  in a capacity of 64.
\<close>

definition al_exhausted :: vector_impl where
  "al_exhausted = \<lparr>max_size = PTRDIFF_MAX, can_allocate = (\<lambda>n. n \<le> 64),
     regrow = (\<lambda>c n. n)\<rparr>"

definition buffer_example :: NtIoOutputBuffer where
  "buffer_example =
     \<lparr>buffer_o = \<lparr>elems = replicate 60 7, capacity = 64\<rparr>, memoryStepping = 5\<rparr>"

text \<open>A region of five bytes.\<close>

definition region_example :: "int8_t list" where
  "region_example = [1, 2, 3, 4, 5]"

text \<open>Five bytes in four chunks, one of them empty.\<close>

definition chunks_example :: "int8_t list list" where
  "chunks_example = [[1, 2], [3], [], [4, 5]]"

section \<open>The errno classification\<close>

lemma ErrnoCheck_throws: "\<exists>k. NtIoFileStreamErrnoCheck h e = Inl (NtIoException k)"
  by (simp add: NtIoFileStreamErrnoCheck_def)

lemma ErrnoCheck_not_Inr: "NtIoFileStreamErrnoCheck h e \<noteq> Inr u"
  by (simp add: NtIoFileStreamErrnoCheck_def)

text \<open>
  C2: the errno check maps \<open>EPERM\<close> to Permission, \<open>EIO\<close> and \<open>EPIPE\<close> to
  StreamClosed, \<open>EAGAIN\<close> and \<open>EWOULDBLOCK\<close> to NonBlocking, \<open>EINTR\<close> to
  Interrupted, and every other value, \<open>EBADF\<close>, \<open>EINVAL\<close> and \<open>EISDIR\<close> among
  them, to InvalidHandle. Every value of \<open>errno\<close> gets exactly one error kind, and the
  check never returns normally: \<open>EINTR\<close> too is thrown, not retried.
\<close>

theorem errno_table:
  assumes "case_labels_distinct h"
  shows "NtIoFileStreamErrnoCheck h (EPERM h) = Inl (NtIoException eioPermission)
    \<and> NtIoFileStreamErrnoCheck h (EIO h) = Inl (NtIoException eioStreamClosed)
    \<and> NtIoFileStreamErrnoCheck h (EPIPE h) = Inl (NtIoException eioStreamClosed)
    \<and> NtIoFileStreamErrnoCheck h (EAGAIN h) = Inl (NtIoException eioNonBlocking)
    \<and> NtIoFileStreamErrnoCheck h (EWOULDBLOCK h) = Inl (NtIoException eioNonBlocking)
    \<and> NtIoFileStreamErrnoCheck h (EINTR h) = Inl (NtIoException eioInterrupted)
    \<and> NtIoFileStreamErrnoCheck h (EBADF h) = Inl (NtIoException eioInvalidHandle)
    \<and> NtIoFileStreamErrnoCheck h (EINVAL h) = Inl (NtIoException eioInvalidHandle)
    \<and> NtIoFileStreamErrnoCheck h (EISDIR h) = Inl (NtIoException eioInvalidHandle)
    \<and> (\<forall>e. e \<notin> {EPERM h, EIO h, EPIPE h, EAGAIN h, EWOULDBLOCK h, EINTR h} \<longrightarrow>
          NtIoFileStreamErrnoCheck h e = Inl (NtIoException eioInvalidHandle))
    \<and> (\<forall>e. \<exists>!k. NtIoFileStreamErrnoCheck h e = Inl (NtIoException k))
    \<and> (\<forall>e u. NtIoFileStreamErrnoCheck h e \<noteq> Inr u)"
proof -
  from assms have ne:
    "EIO h \<noteq> EPERM h" "EPIPE h \<noteq> EPERM h"
    "EAGAIN h \<noteq> EPERM h" "EAGAIN h \<noteq> EIO h" "EAGAIN h \<noteq> EPIPE h"
    "EWOULDBLOCK h \<noteq> EPERM h" "EWOULDBLOCK h \<noteq> EIO h" "EWOULDBLOCK h \<noteq> EPIPE h"
    "EINTR h \<noteq> EPERM h" "EINTR h \<noteq> EIO h" "EINTR h \<noteq> EPIPE h"
    "EINTR h \<noteq> EAGAIN h" "EINTR h \<noteq> EWOULDBLOCK h"
    by (auto simp add: case_labels_distinct_def)
  have 1: "NtIoFileStreamErrnoCheck h (EPERM h) = Inl (NtIoException eioPermission)"
    by (simp add: NtIoFileStreamErrnoCheck_def)
  have 2: "NtIoFileStreamErrnoCheck h (EIO h) = Inl (NtIoException eioStreamClosed)"
    "NtIoFileStreamErrnoCheck h (EPIPE h) = Inl (NtIoException eioStreamClosed)"
    using ne by (simp_all add: NtIoFileStreamErrnoCheck_def)
  have 3: "NtIoFileStreamErrnoCheck h (EAGAIN h) = Inl (NtIoException eioNonBlocking)"
    "NtIoFileStreamErrnoCheck h (EWOULDBLOCK h) = Inl (NtIoException eioNonBlocking)"
    using ne by (simp_all add: NtIoFileStreamErrnoCheck_def)
  have 4: "NtIoFileStreamErrnoCheck h (EINTR h) = Inl (NtIoException eioInterrupted)"
    using ne by (simp add: NtIoFileStreamErrnoCheck_def)
  have other: "NtIoFileStreamErrnoCheck h e = Inl (NtIoException eioInvalidHandle)"
    if "e \<notin> {EPERM h, EIO h, EPIPE h, EAGAIN h, EWOULDBLOCK h, EINTR h}" for e
    using that by (simp add: NtIoFileStreamErrnoCheck_def)
  from assms have 5: "NtIoFileStreamErrnoCheck h (EBADF h) = Inl (NtIoException eioInvalidHandle)"
    "NtIoFileStreamErrnoCheck h (EINVAL h) = Inl (NtIoException eioInvalidHandle)"
    "NtIoFileStreamErrnoCheck h (EISDIR h) = Inl (NtIoException eioInvalidHandle)"
    by (auto intro!: other simp add: case_labels_distinct_def)
  have one: "\<exists>!k. NtIoFileStreamErrnoCheck h e = Inl (NtIoException k)" for e
    using ErrnoCheck_throws [of h e] by auto
  from 1 2 3 4 5 other one ErrnoCheck_not_Inr show ?thesis
    by blast
qed

theorem errno_table_witness:
  "case_labels_distinct errno_example
    \<and> NtIoFileStreamErrnoCheck errno_example 1 = Inl (NtIoException eioPermission)
    \<and> NtIoFileStreamErrnoCheck errno_example 5 = Inl (NtIoException eioStreamClosed)
    \<and> NtIoFileStreamErrnoCheck errno_example 32 = Inl (NtIoException eioStreamClosed)
    \<and> NtIoFileStreamErrnoCheck errno_example 11 = Inl (NtIoException eioNonBlocking)
    \<and> NtIoFileStreamErrnoCheck errno_example 140 = Inl (NtIoException eioNonBlocking)
    \<and> NtIoFileStreamErrnoCheck errno_example 4 = Inl (NtIoException eioInterrupted)
    \<and> NtIoFileStreamErrnoCheck errno_example 9 = Inl (NtIoException eioInvalidHandle)
    \<and> NtIoFileStreamErrnoCheck errno_example 2 = Inl (NtIoException eioInvalidHandle)"
proof -
  have d: "case_labels_distinct errno_example"
    by (simp add: case_labels_distinct_def errno_example_def)
  have two: "(2::int) \<notin> {EPERM errno_example, EIO errno_example, EPIPE errno_example,
      EAGAIN errno_example, EWOULDBLOCK errno_example, EINTR errno_example}"
    by (simp add: errno_example_def)
  note t = errno_table [OF d]
  from t two have other:
    "NtIoFileStreamErrnoCheck errno_example 2 = Inl (NtIoException eioInvalidHandle)"
    by blast
  have sel: "EPERM errno_example = 1" "EIO errno_example = 5" "EPIPE errno_example = 32"
    "EAGAIN errno_example = 11" "EWOULDBLOCK errno_example = 140" "EINTR errno_example = 4"
    "EBADF errno_example = 9"
    by (simp_all add: errno_example_def)
  from t [unfolded sel] other d show ?thesis
    by blast
qed

section \<open>The full read of the file stream\<close>

lemma sint_ssize_t:
  fixes n :: ssize_t
  shows "sint n = (if uint n < 2 ^ 63 then uint n else uint n - 2 ^ 64)"
proof -
  have "sint n = (uint n + 2 ^ 63) mod 2 ^ 64 - 2 ^ 63"
    using int_word_sint [of "uint n", where 'a = 64] by simp
  moreover have "(uint n + 2 ^ 63) mod 2 ^ 64 =
      (if uint n + 2 ^ 63 < 2 ^ 64 then uint n + 2 ^ 63 else uint n + 2 ^ 63 - 2 ^ 64)"
    using uint_lt2p [of n] by (intro mod_add_if_z) simp_all
  ultimately show ?thesis
    by simp
qed

lemma positive_ssize:
  assumes "0 <s (n::ssize_t)"
  shows "sint n = uint n" and "0 < uint n"
proof -
  from assms have pos: "0 < sint n"
    by (simp add: word_sless_alt)
  with uint_lt2p [of n] show "sint n = uint n"
    by (simp add: sint_ssize_t split: if_splits)
  with pos show "0 < uint n"
    by simp
qed

lemma read_loop_done:
  "\<not> readSize < size' \<Longrightarrow> read_loop h fd readSize size' = Some (Inr readSize, fd)"
  by (cases fd) simp_all

lemma read_loop_never_short:
  "read_loop h fd readSize size' = Some (Inr r, fd') \<Longrightarrow> size' \<le> r"
proof (induction fd arbitrary: readSize)
  case Nil
  then show ?case by (simp split: if_splits)
next
  case (Cons a fd)
  show ?case
  proof (cases "readSize < size'")
    case False
    with Cons.prems show ?thesis by simp
  next
    case True
    obtain n e where ae: "a (size' - readSize) = (n, e)"
      by (cases "a (size' - readSize)")
    show ?thesis
    proof (cases "0 <s n")
      case True
      with Cons.prems \<open>readSize < size'\<close> ae
      have "read_loop h fd (readSize + n) size' = Some (Inr r, fd')" by simp
      then show ?thesis by (rule Cons.IH)
    next
      case False
      with Cons.prems \<open>readSize < size'\<close> ae ErrnoCheck_throws [of h e]
      show ?thesis by (auto split: if_splits)
    qed
  qed
qed

lemma advance_in_bounds:
  fixes readSize size' n :: size_t
  assumes "readSize < size'" "0 <s n" "sint n \<le> uint (size' - readSize)"
  shows "readSize + n \<le> size'" and "unat (size' - (readSize + n)) < unat (size' - readSize)"
proof -
  from assms(2) have n: "sint n = uint n" "0 < uint n"
    by (rule positive_ssize)+
  from assms(1) have sub: "uint (size' - readSize) = uint size' - uint readSize"
    by (simp add: uint_sub_if' word_less_def)
  with assms(3) n have le: "uint readSize + uint n \<le> uint size'"
    by simp
  have "uint size' < 2 ^ 64"
    using uint_lt2p [of size'] by simp
  with le have add: "uint (readSize + n) = uint readSize + uint n"
    using uint_add_lem [of readSize n] by simp
  with le show *: "readSize + n \<le> size'"
    by (simp add: word_le_def)
  then have "uint (size' - (readSize + n)) = uint size' - uint (readSize + n)"
    by (simp add: uint_sub_if' word_le_def)
  with add sub n have "uint (size' - (readSize + n)) < uint (size' - readSize)"
    by simp
  then show "unat (size' - (readSize + n)) < unat (size' - readSize)"
    by (simp add: word_less_def [symmetric] word_less_nat_alt)
qed

lemma read_loop_exact:
  assumes "posix_results fd" "readSize \<le> size'"
    and "read_loop h fd readSize size' = Some (Inr r, fd')"
  shows "r = size'"
  using assms
proof (induction fd arbitrary: readSize)
  case Nil
  then show ?case by (simp split: if_splits)
next
  case (Cons a fd)
  from Cons.prems(1) have fd: "posix_results fd"
    by (simp add: posix_results_def)
  show ?case
  proof (cases "readSize < size'")
    case False
    with Cons.prems show ?thesis by simp
  next
    case True
    obtain n e where ae: "a (size' - readSize) = (n, e)"
      by (cases "a (size' - readSize)")
    from Cons.prems(1) have "sint (fst (a (size' - readSize))) \<le> uint (size' - readSize)"
      by (simp add: posix_results_def)
    with ae have bound: "sint n \<le> uint (size' - readSize)"
      by simp
    show ?thesis
    proof (cases "0 <s n")
      case pos: True
      with Cons.prems(3) True ae
      have "read_loop h fd (readSize + n) size' = Some (Inr r, fd')" by simp
      moreover from True pos bound have "readSize + n \<le> size'"
        by (rule advance_in_bounds)
      ultimately show ?thesis
        using fd Cons.IH by blast
    next
      case False
      with Cons.prems(3) True ae ErrnoCheck_throws [of h e]
      show ?thesis by (auto split: if_splits)
    qed
  qed
qed

lemma read_loop_returns:
  assumes "posix_results fd" "unat (size' - readSize) \<le> length fd"
  shows "\<exists>out fd'. read_loop h fd readSize size' = Some (out, fd')"
  using assms
proof (induction fd arbitrary: readSize)
  case Nil
  then have "size' - readSize = 0"
    by (simp add: unat_eq_0)
  then have "\<not> readSize < size'"
    by simp
  then show ?case by simp
next
  case (Cons a fd)
  from Cons.prems(1) have fd: "posix_results fd"
    by (simp add: posix_results_def)
  show ?case
  proof (cases "readSize < size'")
    case False
    then show ?thesis by simp
  next
    case True
    obtain n e where ae: "a (size' - readSize) = (n, e)"
      by (cases "a (size' - readSize)")
    from Cons.prems(1) have "sint (fst (a (size' - readSize))) \<le> uint (size' - readSize)"
      by (simp add: posix_results_def)
    with ae have bound: "sint n \<le> uint (size' - readSize)"
      by simp
    show ?thesis
    proof (cases "0 <s n")
      case pos: True
      from True pos bound
      have "unat (size' - (readSize + n)) < unat (size' - readSize)"
        by (rule advance_in_bounds)
      with Cons.prems(2) have "unat (size' - (readSize + n)) \<le> length fd"
        by simp
      with fd have "\<exists>out fd'. read_loop h fd (readSize + n) size' = Some (out, fd')"
        by (rule Cons.IH)
      with True ae pos show ?thesis by simp
    next
      case False
      with True ae ErrnoCheck_throws [of h e]
      show ?thesis by (auto split: if_splits)
    qed
  qed
qed

lemma read_loop_positive_counts:
  "positive_counts size' ps readSize \<Longrightarrow>
     read_loop h (ps @ fd) readSize size' = read_loop h fd (readSize_after size' ps readSize) size'"
proof (induction ps arbitrary: readSize)
  case Nil
  show ?case by simp
next
  case (Cons a ps)
  obtain n e where ae: "a (size' - readSize) = (n, e)"
    by (cases "a (size' - readSize)")
  from Cons.prems ae have *: "readSize < size'" "0 <s n" "positive_counts size' ps (readSize + n)"
    by simp_all
  from *(3) have "read_loop h (ps @ fd) (readSize + n) size' =
      read_loop h fd (readSize_after size' ps (readSize + n)) size'"
    by (rule Cons.IH)
  with * ae show ?case
    by simp
qed

lemma read_loop_pending:
  "positive_counts size' ps readSize \<Longrightarrow> readSize_after size' ps readSize < size' \<Longrightarrow>
     read_loop h ps readSize size' = None"
  using read_loop_positive_counts [of size' ps readSize h "[]"] by simp

lemma read_loop_closed:
  assumes "readSize < size'" "fst (a (size' - readSize)) = 0"
  shows "read_loop h (a # fd) readSize size' = Some (Inl (NtIoException eioStreamClosed), fd)"
  using assms by (cases "a (size' - readSize)") simp

lemma read_loop_classified:
  assumes "readSize < size'" "fst (a (size' - readSize)) <s 0"
    and "NtIoFileStreamErrnoCheck h (snd (a (size' - readSize))) = Inl e"
  shows "read_loop h (a # fd) readSize size' = Some (Inl e, fd)"
proof -
  obtain n er where ae: "a (size' - readSize) = (n, er)"
    by (cases "a (size' - readSize)")
  with assms(2) have "\<not> 0 <s n" "n \<noteq> 0"
    by (auto simp add: word_sless_alt)
  with assms ae show ?thesis
    by simp
qed

lemma sint_le_uint: "sint (n::ssize_t) \<le> uint n"
  by (simp add: sint_ssize_t)

lemma transfers_posix: "sint (fst (transfers k c)) \<le> uint c"
proof (cases "c < k")
  case True
  then show ?thesis
    by (simp add: transfers_def sint_le_uint)
next
  case False
  then have "uint k \<le> uint c"
    by (simp add: word_less_def)
  with sint_le_uint [of k] False show ?thesis
    by (simp add: transfers_def)
qed

lemma posix_results_fd_example: "posix_results fd_example"
  by (simp add: posix_results_def fd_example_def transfers_posix)

text \<open>
  C1: \<open>NtIoFileStream::read\<close>, whatever the calls of \<open>::read\<close> answer. As long
  as the calls return positive counts, each advances \<open>readSize\<close> by its count and
  the loop goes on with the next call: it returns when \<open>readSize\<close> is no longer
  below \<open>size\<close>, with the calls it has not made left over, and has not returned
  while \<open>readSize\<close> is below \<open>size\<close>. After any number of such calls, a call
  that returns 0 makes the function throw StreamClosed at once, whatever \<open>readSize\<close>
  is by then, and a call that returns a negative value makes it throw the error the errno
  check gives, each without another call. A normal return never leaves \<open>readSize\<close>
  below \<open>size\<close>; as no call returns more than it was asked for, \<open>readSize\<close> is
  then exactly \<open>size\<close>, and \<open>size\<close> calls are always enough for the function
  to end.
\<close>

theorem NtIoFileStream_read_full_transfer:
  "(\<forall>ps fd. positive_counts size' ps 0 \<and> \<not> readSize_after size' ps 0 < size' \<longrightarrow>
        NtIoFileStream_read h (ps @ fd) size' = Some (Inr (readSize_after size' ps 0), fd))
   \<and> (\<forall>ps. positive_counts size' ps 0 \<and> readSize_after size' ps 0 < size' \<longrightarrow>
        NtIoFileStream_read h ps size' = None)
   \<and> (\<forall>ps a fd. positive_counts size' ps 0 \<and> readSize_after size' ps 0 < size' \<and>
        fst (a (size' - readSize_after size' ps 0)) = 0 \<longrightarrow>
        NtIoFileStream_read h (ps @ a # fd) size' =
          Some (Inl (NtIoException eioStreamClosed), fd))
   \<and> (\<forall>ps a fd. positive_counts size' ps 0 \<and> readSize_after size' ps 0 < size' \<and>
        fst (a (size' - readSize_after size' ps 0)) <s 0 \<longrightarrow>
        (\<exists>k. NtIoFileStreamErrnoCheck h (snd (a (size' - readSize_after size' ps 0))) =
                Inl (NtIoException k) \<and>
              NtIoFileStream_read h (ps @ a # fd) size' = Some (Inl (NtIoException k), fd)))
   \<and> (\<forall>fd r fd'. NtIoFileStream_read h fd size' = Some (Inr r, fd') \<longrightarrow> size' \<le> r)
   \<and> (\<forall>fd r fd'.
        posix_results fd \<and> NtIoFileStream_read h fd size' = Some (Inr r, fd') \<longrightarrow> r = size')
   \<and> (\<forall>fd. posix_results fd \<and> unat size' \<le> length fd \<longrightarrow>
        (\<exists>out fd'. NtIoFileStream_read h fd size' = Some (out, fd')))"
proof -
  have complete: "\<forall>ps fd. positive_counts size' ps 0 \<and> \<not> readSize_after size' ps 0 < size' \<longrightarrow>
        NtIoFileStream_read h (ps @ fd) size' = Some (Inr (readSize_after size' ps 0), fd)"
    unfolding NtIoFileStream_read_def
    by (simp add: read_loop_positive_counts read_loop_done)
  have pending: "\<forall>ps. positive_counts size' ps 0 \<and> readSize_after size' ps 0 < size' \<longrightarrow>
        NtIoFileStream_read h ps size' = None"
    unfolding NtIoFileStream_read_def
    by (simp add: read_loop_pending)
  have closed: "\<forall>ps a fd. positive_counts size' ps 0 \<and> readSize_after size' ps 0 < size' \<and>
        fst (a (size' - readSize_after size' ps 0)) = 0 \<longrightarrow>
        NtIoFileStream_read h (ps @ a # fd) size' =
          Some (Inl (NtIoException eioStreamClosed), fd)"
  proof (intro allI impI)
    fix ps fd and a :: attempt
    let ?r = "readSize_after size' ps 0"
    assume *: "positive_counts size' ps 0 \<and> ?r < size' \<and> fst (a (size' - ?r)) = 0"
    then have "read_loop h (ps @ a # fd) 0 size' = read_loop h (a # fd) ?r size'"
      by (simp add: read_loop_positive_counts)
    also from * have "\<dots> = Some (Inl (NtIoException eioStreamClosed), fd)"
      by (intro read_loop_closed) simp_all
    finally show "NtIoFileStream_read h (ps @ a # fd) size' =
        Some (Inl (NtIoException eioStreamClosed), fd)"
      by (simp add: NtIoFileStream_read_def)
  qed
  have classified: "\<forall>ps a fd. positive_counts size' ps 0 \<and> readSize_after size' ps 0 < size' \<and>
        fst (a (size' - readSize_after size' ps 0)) <s 0 \<longrightarrow>
        (\<exists>k. NtIoFileStreamErrnoCheck h (snd (a (size' - readSize_after size' ps 0))) =
                Inl (NtIoException k) \<and>
              NtIoFileStream_read h (ps @ a # fd) size' = Some (Inl (NtIoException k), fd))"
  proof (intro allI impI)
    fix ps fd and a :: attempt
    let ?r = "readSize_after size' ps 0"
    assume *: "positive_counts size' ps 0 \<and> ?r < size' \<and> fst (a (size' - ?r)) <s 0"
    obtain k where k: "NtIoFileStreamErrnoCheck h (snd (a (size' - ?r))) = Inl (NtIoException k)"
      using ErrnoCheck_throws by blast
    from * have "read_loop h (ps @ a # fd) 0 size' = read_loop h (a # fd) ?r size'"
      by (simp add: read_loop_positive_counts)
    also from * k have "\<dots> = Some (Inl (NtIoException k), fd)"
      by (intro read_loop_classified) simp_all
    finally have "NtIoFileStream_read h (ps @ a # fd) size' = Some (Inl (NtIoException k), fd)"
      by (simp add: NtIoFileStream_read_def)
    with k show "\<exists>k. NtIoFileStreamErrnoCheck h (snd (a (size' - ?r))) = Inl (NtIoException k) \<and>
        NtIoFileStream_read h (ps @ a # fd) size' = Some (Inl (NtIoException k), fd)"
      by blast
  qed
  have never_short:
    "\<forall>fd r fd'. NtIoFileStream_read h fd size' = Some (Inr r, fd') \<longrightarrow> size' \<le> r"
    unfolding NtIoFileStream_read_def using read_loop_never_short by blast
  have exact: "\<forall>fd r fd'.
        posix_results fd \<and> NtIoFileStream_read h fd size' = Some (Inr r, fd') \<longrightarrow> r = size'"
    unfolding NtIoFileStream_read_def using read_loop_exact [where readSize = 0] by simp blast
  have returns: "\<forall>fd. posix_results fd \<and> unat size' \<le> length fd \<longrightarrow>
        (\<exists>out fd'. NtIoFileStream_read h fd size' = Some (out, fd'))"
    unfolding NtIoFileStream_read_def using read_loop_returns [where readSize = 0] by simp
  from complete pending closed classified never_short exact returns show ?thesis
    by (intro conjI)
qed


theorem NtIoFileStream_read_full_transfer_witness:
  "NtIoFileStream_read errno_example fd_example 5 = Some (Inr 5, drop 2 fd_example)
   \<and> NtIoFileStream_read errno_example [transfers 3] 5 = None
   \<and> NtIoFileStream_read errno_example (transfers 3 # end_of_stream # fd_example) 5 =
       Some (Inl (NtIoException eioStreamClosed), fd_example)
   \<and> NtIoFileStream_read errno_example (transfers 3 # fails_with 4 # fd_example) 5 =
       Some (Inl (NtIoException eioInterrupted), fd_example)
   \<and> posix_results fd_example \<and> unat (5 :: size_t) \<le> length fd_example
   \<and> (\<exists>out fd'. NtIoFileStream_read errno_example fd_example 5 = Some (out, fd'))"
proof -
  note t = NtIoFileStream_read_full_transfer [of 5 errno_example]
  note t_complete = t [THEN conjunct1, rule_format]
  note t_pending = t [THEN conjunct2, THEN conjunct1, rule_format]
  note t_closed = t [THEN conjunct2, THEN conjunct2, THEN conjunct1, rule_format]
  note t_classified =
    t [THEN conjunct2, THEN conjunct2, THEN conjunct2, THEN conjunct1, rule_format]
  note t_never_short = t [THEN conjunct2, THEN conjunct2, THEN conjunct2, THEN conjunct2,
    THEN conjunct1, rule_format]
  note t_exact = t [THEN conjunct2, THEN conjunct2, THEN conjunct2, THEN conjunct2,
    THEN conjunct2, THEN conjunct1, rule_format]
  note t_returns = t [THEN conjunct2, THEN conjunct2, THEN conjunct2, THEN conjunct2,
    THEN conjunct2, THEN conjunct2, rule_format]
  have one: "positive_counts 5 [transfers 3] 0" "readSize_after 5 [transfers 3] 0 = 3"
    by (simp_all add: transfers_def word_sless_alt)
  have two: "positive_counts 5 [transfers 3, transfers 4] 0"
    "readSize_after 5 [transfers 3, transfers 4] 0 = 5"
    by (simp_all add: transfers_def word_sless_alt)
  have fd: "fd_example = [transfers 3, transfers 4] @ drop 2 fd_example"
    by (simp add: fd_example_def)
  from two have "positive_counts 5 [transfers 3, transfers 4] 0 \<and>
      \<not> readSize_after 5 [transfers 3, transfers 4] 0 < 5"
    by simp
  then have "NtIoFileStream_read errno_example ([transfers 3, transfers 4] @ drop 2 fd_example) 5
      = Some (Inr (readSize_after 5 [transfers 3, transfers 4] 0), drop 2 fd_example)"
    by (rule t_complete)
  with two(2) fd have complete:
    "NtIoFileStream_read errno_example fd_example 5 = Some (Inr 5, drop 2 fd_example)"
    by simp
  from one have "positive_counts 5 [transfers 3] 0 \<and> readSize_after 5 [transfers 3] 0 < 5"
    by simp
  then have pending: "NtIoFileStream_read errno_example [transfers 3] 5 = None"
    by (rule t_pending)
  from one have "positive_counts 5 [transfers 3] 0 \<and> readSize_after 5 [transfers 3] 0 < 5 \<and>
      fst (end_of_stream (5 - readSize_after 5 [transfers 3] 0)) = 0"
    by (simp add: end_of_stream_def)
  then have "NtIoFileStream_read errno_example ([transfers 3] @ end_of_stream # fd_example) 5 =
      Some (Inl (NtIoException eioStreamClosed), fd_example)"
    by (rule t_closed)
  then have closed:
    "NtIoFileStream_read errno_example (transfers 3 # end_of_stream # fd_example) 5 =
       Some (Inl (NtIoException eioStreamClosed), fd_example)"
    by simp
  from one have "positive_counts 5 [transfers 3] 0 \<and> readSize_after 5 [transfers 3] 0 < 5 \<and>
      fst (fails_with 4 (5 - readSize_after 5 [transfers 3] 0)) <s 0"
    by (simp add: fails_with_def word_sless_alt)
  then have "\<exists>k. NtIoFileStreamErrnoCheck errno_example
        (snd (fails_with 4 (5 - readSize_after 5 [transfers 3] 0))) = Inl (NtIoException k) \<and>
      NtIoFileStream_read errno_example ([transfers 3] @ fails_with 4 # fd_example) 5 =
        Some (Inl (NtIoException k), fd_example)"
    by (rule t_classified)
  then obtain k where k: "NtIoFileStreamErrnoCheck errno_example
        (snd (fails_with 4 (5 - readSize_after 5 [transfers 3] 0))) = Inl (NtIoException k)"
      "NtIoFileStream_read errno_example ([transfers 3] @ fails_with 4 # fd_example) 5 =
        Some (Inl (NtIoException k), fd_example)"
    by (elim exE conjE)
  from k(1) have "k = eioInterrupted"
    by (simp add: NtIoFileStreamErrnoCheck_def errno_example_def fails_with_def)
  with k(2) have classified:
    "NtIoFileStream_read errno_example (transfers 3 # fails_with 4 # fd_example) 5 =
       Some (Inl (NtIoException eioInterrupted), fd_example)"
    by simp
  have enough: "unat (5 :: size_t) \<le> length fd_example"
    by (simp add: fd_example_def)
  with posix_results_fd_example
  have returns: "\<exists>out fd'. NtIoFileStream_read errno_example fd_example 5 = Some (out, fd')"
    by (intro t_returns conjI)
  from complete have "(5::size_t) \<le> 5"
    by (rule t_never_short)
  from posix_results_fd_example complete have "(5::size_t) = 5"
    by (intro t_exact conjI)
  from complete pending closed classified posix_results_fd_example enough returns
  show ?thesis
    by (intro conjI)
qed

section \<open>The input buffer: reads within and beyond the remained size\<close>

lemma memcpy_Some:
  "unat n \<le> length src \<Longrightarrow> unat n \<le> length dst \<Longrightarrow>
     memcpy dst src n = Some (take (unat n) src @ drop (unat n) dst)"
  by (simp add: memcpy_def)

lemma NtIoInputBuffer_read_closed:
  "size_i this < requestSize \<Longrightarrow>
     NtIoInputBuffer_read requestBuffer requestSize this =
       (Inl (NtIoException eioStreamClosed), requestBuffer, this)"
  by (simp add: NtIoInputBuffer_read_def)

lemma NtIoInputBuffer_read_ok:
  assumes "requestSize \<le> size_i this"
    and "unat (size_i this) \<le> length (buffer_i this)"
    and "unat requestSize \<le> length requestBuffer"
  shows "NtIoInputBuffer_read requestBuffer requestSize this =
     (Inr (),
      take (unat requestSize) (buffer_i this) @ drop (unat requestSize) requestBuffer,
      \<lparr>size_i = size_i this - requestSize,
       buffer_i = drop (unat requestSize) (buffer_i this)\<rparr>)"
proof -
  from assms(1) have "unat requestSize \<le> unat (size_i this)"
    by (simp add: word_le_nat_alt)
  with assms(2) have "unat requestSize \<le> length (buffer_i this)"
    by simp
  with assms(3) have "memcpy requestBuffer (buffer_i this) requestSize =
      Some (take (unat requestSize) (buffer_i this) @ drop (unat requestSize) requestBuffer)"
    by (simp add: memcpy_Some)
  moreover from assms(1) have "\<not> size_i this < requestSize"
    by simp
  ultimately show ?thesis
    by (simp add: NtIoInputBuffer_read_def)
qed

text \<open>
  C7: a read of a size not above the remained size succeeds. It copies exactly the
  requested number of bytes from the current position to the start of the destination
  and leaves the rest of the destination as it was, advances the pointer by that many
  bytes and decreases the remained size by that size. The region behind the pointer is
  taken to hold at least the remained size, and the destination the requested size.
\<close>

theorem NtIoInputBuffer_read_within:
  assumes "requestSize \<le> size_i this"
    and "unat (size_i this) \<le> length (buffer_i this)"
    and "unat requestSize \<le> length requestBuffer"
  shows "case NtIoInputBuffer_read requestBuffer requestSize this of
      (out, requestBuffer', this') \<Rightarrow>
        out = Inr ()
        \<and> take (unat requestSize) requestBuffer' = take (unat requestSize) (buffer_i this)
        \<and> length (take (unat requestSize) (buffer_i this)) = unat requestSize
        \<and> drop (unat requestSize) requestBuffer' = drop (unat requestSize) requestBuffer
        \<and> buffer_i this' = drop (unat requestSize) (buffer_i this)
        \<and> buffer_i this = take (unat requestSize) (buffer_i this) @ buffer_i this'
        \<and> size_i this' = size_i this - requestSize
        \<and> unat (size_i this') = unat (size_i this) - unat requestSize
        \<and> unat (size_i this') \<le> length (buffer_i this')"
proof -
  from assms(1) have le: "unat requestSize \<le> unat (size_i this)"
    by (simp add: word_le_nat_alt)
  with assms(2) have len: "unat requestSize \<le> length (buffer_i this)"
    by simp
  from assms(1) have sub: "unat (size_i this - requestSize) = unat (size_i this) - unat requestSize"
    by (rule unat_sub)
  from sub assms(2) have "unat (size_i this - requestSize) \<le> length (buffer_i this) - unat requestSize"
    by simp
  with len sub show ?thesis
    by (simp add: NtIoInputBuffer_read_ok [OF assms])
qed

theorem NtIoInputBuffer_read_within_witness:
  "(3 :: size_t) \<le> size_i (new_NtIoInputBuffer region_example 5)
   \<and> unat (size_i (new_NtIoInputBuffer region_example 5))
        \<le> length (buffer_i (new_NtIoInputBuffer region_example 5))
   \<and> unat (3 :: size_t) \<le> length [0, 0, 0, 0 :: int8_t]
   \<and> NtIoInputBuffer_read [0, 0, 0, 0] 3 (new_NtIoInputBuffer region_example 5) =
       (Inr (), [1, 2, 3, 0], \<lparr>size_i = 2, buffer_i = [4, 5]\<rparr>)
   \<and> (case NtIoInputBuffer_read [0, 0, 0, 0] 3 (new_NtIoInputBuffer region_example 5) of
        (out, requestBuffer', this') \<Rightarrow>
          out = Inr () \<and> take 3 requestBuffer' = [1, 2, 3] \<and> drop 3 requestBuffer' = [0]
          \<and> buffer_i this' = [4, 5] \<and> size_i this' = 2)"
proof -
  have 1: "(3 :: size_t) \<le> size_i (new_NtIoInputBuffer region_example 5)"
    by (simp add: new_NtIoInputBuffer_def)
  have 2: "unat (size_i (new_NtIoInputBuffer region_example 5))
      \<le> length (buffer_i (new_NtIoInputBuffer region_example 5))"
    by (simp add: new_NtIoInputBuffer_def region_example_def)
  have 3: "unat (3 :: size_t) \<le> length [0, 0, 0, 0 :: int8_t]"
    by simp
  have run: "NtIoInputBuffer_read [0, 0, 0, 0] 3 (new_NtIoInputBuffer region_example 5) =
       (Inr (), [1, 2, 3, 0], \<lparr>size_i = 2, buffer_i = [4, 5]\<rparr>)"
    by (simp add: NtIoInputBuffer_read_def new_NtIoInputBuffer_def region_example_def memcpy_def)
  have "case NtIoInputBuffer_read [0, 0, 0, 0] 3 (new_NtIoInputBuffer region_example 5) of
        (out, requestBuffer', this') \<Rightarrow>
          out = Inr () \<and> take 3 requestBuffer' = [1, 2, 3] \<and> drop 3 requestBuffer' = [0]
          \<and> buffer_i this' = [4, 5] \<and> size_i this' = 2"
    using NtIoInputBuffer_read_within [OF 1 2 3] unfolding run
    by (simp add: new_NtIoInputBuffer_def region_example_def)
  with 1 2 3 run show ?thesis
    by (intro conjI)
qed

text \<open>
  C6: a read of a size above the remained size throws StreamClosed and changes nothing:
  the destination, the pointer and the remained size are as before. A later read of a
  size within the remained size on the object as the failed call left it therefore
  succeeds and delivers the original content, as in a region of five bytes, where a read
  of six fails and a read of five then returns all five bytes.
\<close>

theorem NtIoInputBuffer_read_beyond:
  assumes "size_i this < requestSize"
  shows "NtIoInputBuffer_read requestBuffer requestSize this =
       (Inl (NtIoException eioStreamClosed), requestBuffer, this)
    \<and> (\<forall>laterSize laterBuffer.
         laterSize \<le> size_i this \<and> unat (size_i this) \<le> length (buffer_i this)
           \<and> unat laterSize \<le> length laterBuffer \<longrightarrow>
         (case NtIoInputBuffer_read requestBuffer requestSize this of
            (_, _, this') \<Rightarrow>
              NtIoInputBuffer_read laterBuffer laterSize this' =
                (Inr (),
                 take (unat laterSize) (buffer_i this) @ drop (unat laterSize) laterBuffer,
                 \<lparr>size_i = size_i this - laterSize,
                  buffer_i = drop (unat laterSize) (buffer_i this)\<rparr>)))"
  using assms by (simp add: NtIoInputBuffer_read_closed NtIoInputBuffer_read_ok)

theorem NtIoInputBuffer_read_beyond_witness:
  "size_i (new_NtIoInputBuffer region_example 5) < 6
   \<and> NtIoInputBuffer_read [0, 0, 0, 0, 0, 0] 6 (new_NtIoInputBuffer region_example 5) =
       (Inl (NtIoException eioStreamClosed), [0, 0, 0, 0, 0, 0],
        new_NtIoInputBuffer region_example 5)
   \<and> NtIoInputBuffer_read [0, 0, 0, 0, 0, 0] 5
        (snd (snd (NtIoInputBuffer_read [0, 0, 0, 0, 0, 0] 6
           (new_NtIoInputBuffer region_example 5)))) =
       (Inr (), [1, 2, 3, 4, 5, 0], \<lparr>size_i = 0, buffer_i = []\<rparr>)"
proof -
  have 1: "size_i (new_NtIoInputBuffer region_example 5) < 6"
    by (simp add: new_NtIoInputBuffer_def)
  note t = NtIoInputBuffer_read_beyond [OF 1, of "[0, 0, 0, 0, 0, 0]"]
  note fails = t [THEN conjunct1]
  have "(5 :: size_t) \<le> size_i (new_NtIoInputBuffer region_example 5)
      \<and> unat (size_i (new_NtIoInputBuffer region_example 5))
          \<le> length (buffer_i (new_NtIoInputBuffer region_example 5))
      \<and> unat (5 :: size_t) \<le> length [0, 0, 0, 0, 0, 0 :: int8_t]"
    by (simp add: new_NtIoInputBuffer_def region_example_def)
  from t [THEN conjunct2, rule_format, OF this]
  have "NtIoInputBuffer_read [0, 0, 0, 0, 0, 0] 5
        (snd (snd (NtIoInputBuffer_read [0, 0, 0, 0, 0, 0] 6
           (new_NtIoInputBuffer region_example 5)))) =
       (Inr (), [1, 2, 3, 4, 5, 0], \<lparr>size_i = 0, buffer_i = []\<rparr>)"
    by (simp add: fails) (simp add: new_NtIoInputBuffer_def region_example_def)
  with 1 fails show ?thesis
    by (intro conjI)
qed

section \<open>Requests of size zero\<close>

text \<open>
  C9: a request of size zero succeeds and changes nothing, in every operation: the
  output buffer keeps its vector (content, length and capacity), the input buffer its
  pointer and remained size and the destination its bytes, and the file stream returns
  without a call of \<open>::read\<close> or \<open>::write\<close>, the descriptor's calls all left.
\<close>

theorem zero_size_requests:
  "NtIoOutputBuffer_write al requestBuffer 0 out = (Inr (), out)
   \<and> NtIoInputBuffer_read requestBuffer 0 inp = (Inr (), requestBuffer, inp)
   \<and> NtIoFileStream_read h fd 0 = Some (Inr 0, fd)
   \<and> NtIoFileStream_write h fd 0 = Some (Inr 0, fd)"
proof -
  have w: "NtIoOutputBuffer_write al requestBuffer 0 out = (Inr (), out)"
    by (simp add: NtIoOutputBuffer_write_def)
  have r: "NtIoInputBuffer_read requestBuffer 0 inp = (Inr (), requestBuffer, inp)"
    by (simp add: NtIoInputBuffer_read_def memcpy_def)
  have fr: "NtIoFileStream_read h fd 0 = Some (Inr 0, fd)"
    by (cases fd) (simp_all add: NtIoFileStream_read_def)
  have fw: "NtIoFileStream_write h fd 0 = Some (Inr 0, fd)"
    by (cases fd) (simp_all add: NtIoFileStream_write_def)
  from w r fr fw show ?thesis
    by (intro conjI)
qed

theorem zero_size_requests_witness:
  "NtIoOutputBuffer_write al_example [] 0 (new_NtIoOutputBuffer 5) =
     (Inr (), new_NtIoOutputBuffer 5)
   \<and> NtIoInputBuffer_read [] 0 (new_NtIoInputBuffer region_example 5) =
     (Inr (), [], new_NtIoInputBuffer region_example 5)
   \<and> NtIoFileStream_read errno_example fd_example 0 = Some (Inr 0, fd_example)
   \<and> NtIoFileStream_write errno_example fd_example 0 = Some (Inr 0, fd_example)"
  by (rule zero_size_requests)

section \<open>The output buffer: step size and rounding\<close>

lemma scast_pow2:
  assumes "k < 31"
  shows "(scast (push_bit k (1 :: 32 word)) :: 64 word) = 2 ^ k"
proof (rule bit_eqI)
  fix i
  from assms show "bit (scast (push_bit k (1 :: 32 word)) :: 64 word) i \<longleftrightarrow> bit (2 ^ k :: 64 word) i"
    by (auto simp add: bit_simps min_def)
qed

lemma round_and_not:
  "newContainerSize_of n m = (n + m) AND NOT m"
  unfolding newContainerSize_of_def
  by (rule bit_eqI) (auto simp add: bit_simps)

lemma and_not_mask_sub:
  fixes x :: size_t
  shows "x AND NOT (mask k) = x - take_bit k x"
proof -
  have "x AND NOT (mask k) = push_bit k (drop_bit k x)"
    by (rule bit_eqI) (auto simp add: bit_simps)
  moreover have "push_bit k (drop_bit k x) + take_bit k x = x"
    by (rule bits_ident)
  ultimately show ?thesis
    by (simp add: algebra_simps)
qed

lemma unat_pow2:
  assumes "k < 64"
  shows "unat (2 ^ k :: size_t) = 2 ^ k"
proof -
  from assms have "(0 :: size_t) < 2 ^ k"
    by (simp add: word_neq_0_conv [symmetric])
  then have "uint (2 ^ k :: size_t) = 2 ^ k"
    by (rule uint_2p)
  then show ?thesis
    by (simp add: unat_eq_nat_uint nat_power_eq)
qed

lemma unat_pow2_minus_1:
  assumes "k < 64"
  shows "unat (2 ^ k - 1 :: size_t) = 2 ^ k - 1"
proof -
  from assms have "(2 ^ k :: size_t) \<noteq> 0"
    by simp
  then have "unat (2 ^ k - 1 :: size_t) = unat (2 ^ k :: size_t) - 1"
    by (rule unat_minus_one)
  with assms show ?thesis
    by (simp add: unat_pow2)
qed

lemma unat_take_bit_mod:
  fixes x :: size_t
  shows "unat (take_bit k x) = unat x mod 2 ^ k"
proof -
  have "unat (take_bit k x) = take_bit k (unat x)"
    by (rule unsigned_take_bit_eq)
  then show ?thesis
    by (simp only: take_bit_eq_mod)
qed

lemma unat_round:
  fixes x :: size_t
  shows "unat (x AND NOT (mask k)) = unat x - unat x mod 2 ^ k"
proof -
  have "unat (take_bit k x) \<le> unat x"
    by (simp only: unat_take_bit_mod mod_less_eq_dividend)
  then have le: "take_bit k x \<le> x"
    by (simp only: word_le_nat_alt)
  have "unat (x AND NOT (mask k)) = unat (x - take_bit k x)"
    by (simp only: and_not_mask_sub)
  also from le have "\<dots> = unat x - unat (take_bit k x)"
    by (rule unat_sub)
  finally show ?thesis
    by (simp only: unat_take_bit_mod)
qed

lemma round_up_least:
  fixes N S :: nat
  assumes "0 < S"
  shows "least_multiple_above S N (N + (S - 1) - (N + (S - 1)) mod S)"
proof -
  define a where "a = N + (S - 1)"
  define r where "r = a - a mod S"
  have dvd: "S dvd r"
    unfolding r_def by (simp add: dvd_minus_mod)
  from assms have "a mod S < S"
    by simp
  moreover from assms have "a mod S \<le> S - 1"
    using \<open>a mod S < S\<close> by simp
  ultimately have ge: "N \<le> r"
    unfolding r_def a_def by simp
  have upper: "r \<le> a"
    unfolding r_def by simp
  have least: "r \<le> m" if m: "S dvd m" "N \<le> m" for m
  proof (rule ccontr)
    assume "\<not> r \<le> m"
    then have "m < r" by simp
    from m(1) obtain q where q: "m = S * q" by (rule dvdE)
    from dvd obtain p where p: "r = S * p" by (rule dvdE)
    from \<open>m < r\<close> q p assms have "q < p"
      by simp
    then have "S * (q + 1) \<le> S * p"
      by (intro mult_le_mono2) simp
    with q p have "m + S \<le> r"
      by simp
    with upper have "m + S \<le> N + (S - 1)"
      unfolding a_def by simp
    with assms have "m < N"
      by simp
    with m(2) show False by simp
  qed
  from dvd ge least show ?thesis
    unfolding least_multiple_above_def r_def a_def by blast
qed

lemma least_multiple_above_upper:
  assumes "0 < S" "least_multiple_above S N r"
  shows "r \<le> N + (S - 1)"
proof -
  define m where "m = N + (S - 1) - (N + (S - 1)) mod S"
  from assms(1) have "least_multiple_above S N m"
    unfolding m_def by (rule round_up_least)
  then have "S dvd m \<and> N \<le> m"
    by (simp add: least_multiple_above_def)
  with assms(2) have "r \<le> m"
    by (simp add: least_multiple_above_def)
  also have "m \<le> N + (S - 1)"
    by (simp add: m_def)
  finally show ?thesis .
qed

lemma newContainerSize_least:
  assumes "k < 64" "unat newSize + (2 ^ k - 1) < 2 ^ 64"
  shows "least_multiple_above (2 ^ k) (unat newSize)
     (unat (newContainerSize_of newSize (2 ^ k - 1)))"
proof -
  have m: "(2 ^ k - 1 :: size_t) = mask k"
    by (simp add: mask_eq_exp_minus_1)
  from assms have "unat newSize + unat (2 ^ k - 1 :: size_t) < 2 ^ LENGTH(64)"
    by (simp add: unat_pow2_minus_1)
  then have "unat (newSize + (2 ^ k - 1)) = unat newSize + unat (2 ^ k - 1 :: size_t)"
    by (simp only: unat_add_lem)
  with assms(1) have sum: "unat (newSize + (2 ^ k - 1)) = unat newSize + (2 ^ k - 1)"
    by (simp add: unat_pow2_minus_1)
  have "unat (newContainerSize_of newSize (2 ^ k - 1)) =
      unat (newSize + (2 ^ k - 1)) - unat (newSize + (2 ^ k - 1)) mod 2 ^ k"
    unfolding round_and_not m by (rule unat_round)
  with sum have "unat (newContainerSize_of newSize (2 ^ k - 1)) =
      unat newSize + (2 ^ k - 1) - (unat newSize + (2 ^ k - 1)) mod 2 ^ k"
    by simp
  moreover have "least_multiple_above (2 ^ k) (unat newSize)
      (unat newSize + (2 ^ k - 1) - (unat newSize + (2 ^ k - 1)) mod 2 ^ k)"
    by (rule round_up_least) simp
  ultimately show ?thesis
    by simp
qed

lemma newContainerSize_overflow:
  assumes "k < 64" "2 ^ 64 \<le> unat newSize + (2 ^ k - 1)"
  shows "newContainerSize_of newSize (2 ^ k - 1) = 0" and "0 < newSize"
proof -
  have m: "(2 ^ k - 1 :: size_t) = mask k"
    by (simp add: mask_eq_exp_minus_1)
  have lt: "unat newSize < 2 ^ 64"
    using unsigned_less [of newSize, where 'a = nat] by simp
  from assms have "unat (newSize + (2 ^ k - 1)) = unat newSize + (2 ^ k - 1) - 2 ^ 64"
    by (simp add: unat_plus_if' unat_pow2_minus_1)
  moreover have "0 < (2 :: nat) ^ k"
    by simp
  ultimately have small: "unat (newSize + (2 ^ k - 1)) < 2 ^ k"
    using lt by linarith
  have "unat (newContainerSize_of newSize (2 ^ k - 1)) =
      unat (newSize + (2 ^ k - 1)) - unat (newSize + (2 ^ k - 1)) mod 2 ^ k"
    unfolding round_and_not m by (rule unat_round)
  with small have "unat (newContainerSize_of newSize (2 ^ k - 1)) = 0"
    by simp
  then show "newContainerSize_of newSize (2 ^ k - 1) = 0"
    by (simp add: unat_eq_0)
  from assms(1) have "(2 :: nat) ^ k < 2 ^ 64"
    by (intro power_strict_increasing) simp_all
  then have "(2 :: nat) ^ k - 1 < 2 ^ 64"
    by simp
  with assms(2) have "unat newSize \<noteq> 0"
    by simp
  then show "0 < newSize"
    by (simp add: unat_eq_0 word_neq_0_conv)
qed

text \<open>
  C10: for a step size \<open>2 ^ k\<close> and \<open>maskStepSize = 2 ^ k - 1\<close>, the expression
  \<open>((newSize + maskStepSize) | maskStepSize) ^ maskStepSize\<close> is the least multiple
  of the step size that is not below \<open>newSize\<close>, whenever
  \<open>newSize + maskStepSize\<close> does not exceed the largest \<open>size_t\<close>. The
  condition is needed: when the sum wraps around, the result is below \<open>newSize\<close>.
\<close>

theorem bit_mask_rounding:
  assumes "k < 64"
  shows "(unat newSize + (2 ^ k - 1) < 2 ^ 64 \<longrightarrow>
            least_multiple_above (2 ^ k) (unat newSize)
              (unat (newContainerSize_of newSize (2 ^ k - 1))))
       \<and> (2 ^ 64 \<le> unat newSize + (2 ^ k - 1) \<longrightarrow>
            newContainerSize_of newSize (2 ^ k - 1) < newSize)"
  using assms newContainerSize_least [of k newSize] newContainerSize_overflow [of k newSize]
  by simp

theorem bit_mask_rounding_witness:
  "(6 :: nat) < 64
   \<and> unat (70 :: size_t) + (2 ^ 6 - 1) < 2 ^ 64
   \<and> least_multiple_above (2 ^ 6) (unat (70 :: size_t))
        (unat (newContainerSize_of 70 (2 ^ 6 - 1)))
   \<and> newContainerSize_of 70 63 = 128
   \<and> 2 ^ 64 \<le> unat (- 1 :: size_t) + (2 ^ 6 - 1)
   \<and> newContainerSize_of (- 1) (2 ^ 6 - 1) < (- 1 :: size_t)
   \<and> newContainerSize_of (- 1) 63 = 0"
proof -
  have k: "(6 :: nat) < 64"
    by simp
  have h1: "unat (70 :: size_t) + (2 ^ 6 - 1) < 2 ^ 64"
    by simp
  have c1: "least_multiple_above (2 ^ 6) (unat (70 :: size_t))
      (unat (newContainerSize_of 70 (2 ^ 6 - 1)))"
    using h1 by (rule bit_mask_rounding [OF k, THEN conjunct1, rule_format])
  have h2: "2 ^ 64 \<le> unat (- 1 :: size_t) + (2 ^ 6 - 1)"
    by (simp add: unsigned_minus_1_eq_mask mask_eq_exp_minus_1)
  have c2: "newContainerSize_of (- 1) (2 ^ 6 - 1) < (- 1 :: size_t)"
    using h2 by (rule bit_mask_rounding [OF k, THEN conjunct2, rule_format])
  have v1: "newContainerSize_of 70 63 = 128"
    by (simp add: newContainerSize_of_def)
  have v2: "newContainerSize_of (- 1) 63 = 0"
    by (simp add: newContainerSize_of_def)
  from k h1 c1 v1 h2 c2 v2 show ?thesis
    by (intro conjI)
qed

lemma stepSize_pow2:
  assumes "memoryStepping this \<le> 29"
  shows "stepSize this = Some (2 ^ (unat (memoryStepping this) + 1))"
proof -
  from assms have ms: "unat (memoryStepping this) \<le> 29"
    by (simp add: word_le_nat_alt)
  then have "unat (memoryStepping this) + unat (1 :: size_t) < 2 ^ LENGTH(64)"
    by simp
  then have "unat (memoryStepping this + 1) = unat (memoryStepping this) + unat (1 :: size_t)"
    by (simp only: unat_add_lem)
  then have n: "unat (memoryStepping this + 1) = unat (memoryStepping this) + 1"
    by simp
  with ms have "memoryStepping this + 1 < 32"
    by (simp add: word_less_nat_alt)
  moreover from n ms
  have "(scast (push_bit (unat (memoryStepping this + 1)) (1 :: 32 word)) :: size_t) =
      2 ^ (unat (memoryStepping this) + 1)"
    by (simp only: scast_pow2)
  ultimately show ?thesis
    by (simp add: stepSize_def Let_def)
qed

lemma stepSize_5: "stepSize \<lparr>buffer_o = v, memoryStepping = 5\<rparr> = Some 64"
proof -
  have "memoryStepping \<lparr>buffer_o = v, memoryStepping = 5\<rparr> \<le> 29"
    by simp
  then have "stepSize \<lparr>buffer_o = v, memoryStepping = 5\<rparr> =
      Some (2 ^ (unat (memoryStepping \<lparr>buffer_o = v, memoryStepping = 5\<rparr>) + 1))"
    by (rule stepSize_pow2)
  then show ?thesis
    by simp
qed

section \<open>The output buffer: one write\<close>

lemma unat_vsize:
  "length (elems v) < 2 ^ 64 \<Longrightarrow> unat (vsize v) = length (elems v)"
  by (simp add: vsize_def unat_of_nat)

lemma resize_within:
  assumes "vsize v < n" "n \<le> capacity v"
  shows "resize al n v = Inr (v\<lparr>elems := elems v @ replicate (unat n - length (elems v)) 0\<rparr>)"
  using assms by (simp add: resize_def)

lemma resize_elems:
  assumes "resize al n v = Inr v'" "length (elems v) < 2 ^ 64"
  shows "elems v' = take (unat n) (elems v @ replicate (unat n - length (elems v)) 0)"
proof -
  from assms(2) have old: "unat (vsize v) = length (elems v)"
    by (rule unat_vsize)
  show ?thesis
  proof (cases "n \<le> vsize v")
    case True
    with old have "unat n \<le> length (elems v)"
      by (simp add: word_le_nat_alt)
    with True assms(1) show ?thesis
      by (auto simp add: resize_def)
  next
    case False
    with old have "length (elems v) < unat n"
      by (simp add: word_le_nat_alt)
    with False assms(1) show ?thesis
      by (auto simp add: resize_def split: if_splits)
  qed
qed

lemma write_grows:
  assumes nz: "requestSize \<noteq> 0"
    and ms: "memoryStepping this \<le> 29"
    and src: "unat requestSize \<le> length requestBuffer"
    and fit: "length (elems (buffer_o this)) + unat requestSize
        + (2 ^ (unat (memoryStepping this) + 1) - 1) < 2 ^ 64"
  defines "target \<equiv> newContainerSize_of (vsize (buffer_o this) + requestSize)
      (2 ^ (unat (memoryStepping this) + 1) - 1)"
  shows "least_multiple_above (2 ^ (unat (memoryStepping this) + 1))
      (length (elems (buffer_o this)) + unat requestSize) (unat target)"
    and "NtIoOutputBuffer_write al requestBuffer requestSize this =
      (if capacity (buffer_o this) < target \<and> (max_size al < target \<or> \<not> can_allocate al target)
       then (Inl (NtIoException eioAllocation), this)
       else (Inr (),
             this\<lparr>buffer_o :=
               \<lparr>elems = elems (buffer_o this) @ take (unat requestSize) requestBuffer,
                capacity = (if capacity (buffer_o this) < target then target
                            else capacity (buffer_o this))\<rparr>\<rparr>))"
proof -
  define v where "v = buffer_o this"
  define k where "k = unat (memoryStepping this) + 1"
  define newSize where "newSize = vsize v + requestSize"
  from ms have "unat (memoryStepping this) \<le> 29"
    by (simp add: word_le_nat_alt)
  then have k: "k < 64"
    by (simp add: k_def)
  from fit have len: "length (elems v) < 2 ^ 64"
    unfolding v_def by linarith
  then have old: "unat (vsize v) = length (elems v)"
    by (rule unat_vsize)
  from fit have "length (elems v) + unat requestSize < 2 ^ 64"
    unfolding v_def by linarith
  with old have "unat (vsize v) + unat requestSize < 2 ^ LENGTH(64)"
    by simp
  then have "unat (vsize v + requestSize) = unat (vsize v) + unat requestSize"
    by (simp only: unat_add_lem)
  with old have new: "unat newSize = length (elems v) + unat requestSize"
    by (simp add: newSize_def)
  from fit new have "unat newSize + (2 ^ k - 1) < 2 ^ 64"
    unfolding v_def k_def by linarith
  with k have "least_multiple_above (2 ^ k) (unat newSize)
      (unat (newContainerSize_of newSize (2 ^ k - 1)))"
    by (rule newContainerSize_least)
  then have least: "least_multiple_above (2 ^ k) (length (elems v) + unat requestSize) (unat target)"
    unfolding new by (simp add: target_def newSize_def v_def k_def)
  then show "least_multiple_above (2 ^ (unat (memoryStepping this) + 1))
      (length (elems (buffer_o this)) + unat requestSize) (unat target)"
    by (simp add: v_def k_def)
  from least new have ge: "newSize \<le> target"
    by (simp add: least_multiple_above_def word_le_nat_alt)
  from nz have "0 < unat requestSize"
    by (simp add: unat_gt_0)
  with old new have grow: "vsize v < newSize"
    by (simp add: word_less_nat_alt)
  from new have n: "unat newSize - length (elems v) = unat requestSize"
    by simp
  have step: "stepSize this = Some (2 ^ k)"
    unfolding k_def using ms by (rule stepSize_pow2)
  have tgt: "newContainerSize_of (vsize (buffer_o this) + requestSize) (2 ^ k - 1) = target"
    by (simp add: target_def k_def)
  have finish: "(case resize al newSize v1 of
         Inl _ \<Rightarrow> (Inl Unexpected, this\<lparr>buffer_o := v1\<rparr>)
       | Inr v' \<Rightarrow>
           (case memcpy (drop (unat (vsize v)) (elems v')) requestBuffer requestSize of
              None \<Rightarrow> (Inl Undefined, this\<lparr>buffer_o := v'\<rparr>)
            | Some tail \<Rightarrow>
                (Inr (),
                 this\<lparr>buffer_o := v'\<lparr>elems := take (unat (vsize v)) (elems v') @ tail\<rparr>\<rparr>))) =
      (Inr (), this\<lparr>buffer_o :=
         \<lparr>elems = elems v @ take (unat requestSize) requestBuffer, capacity = capacity v1\<rparr>\<rparr>)"
    if "elems v1 = elems v" "newSize \<le> capacity v1" for v1
  proof -
    from that grow have "vsize v1 < newSize"
      by (simp add: vsize_def)
    with that(2) have "resize al newSize v1 =
        Inr (v1\<lparr>elems := elems v1 @ replicate (unat newSize - length (elems v1)) 0\<rparr>)"
      by (intro resize_within)
    with that(1) n have "resize al newSize v1 =
        Inr (v1\<lparr>elems := elems v @ replicate (unat requestSize) 0\<rparr>)"
      by simp
    with src old show ?thesis
      by (cases v1) (simp add: memcpy_def)
  qed
  show "NtIoOutputBuffer_write al requestBuffer requestSize this =
      (if capacity (buffer_o this) < target \<and> (max_size al < target \<or> \<not> can_allocate al target)
       then (Inl (NtIoException eioAllocation), this)
       else (Inr (),
             this\<lparr>buffer_o :=
               \<lparr>elems = elems (buffer_o this) @ take (unat requestSize) requestBuffer,
                capacity = (if capacity (buffer_o this) < target then target
                            else capacity (buffer_o this))\<rparr>\<rparr>))"
  proof (cases "capacity v < target")
    case False
    with ge have "newSize \<le> capacity v"
      by simp
    with finish [of v] have "(case resize al newSize v of
         Inl _ \<Rightarrow> (Inl Unexpected, this\<lparr>buffer_o := v\<rparr>)
       | Inr v' \<Rightarrow>
           (case memcpy (drop (unat (vsize v)) (elems v')) requestBuffer requestSize of
              None \<Rightarrow> (Inl Undefined, this\<lparr>buffer_o := v'\<rparr>)
            | Some tail \<Rightarrow>
                (Inr (),
                 this\<lparr>buffer_o := v'\<lparr>elems := take (unat (vsize v)) (elems v') @ tail\<rparr>\<rparr>))) =
      (Inr (), this\<lparr>buffer_o :=
         \<lparr>elems = elems v @ take (unat requestSize) requestBuffer, capacity = capacity v\<rparr>\<rparr>)"
      by simp
    with False nz step tgt show ?thesis
      by (simp add: NtIoOutputBuffer_write_def Let_def v_def [symmetric] newSize_def [symmetric])
  next
    case True
    show ?thesis
    proof (cases "max_size al < target \<or> \<not> can_allocate al target")
      case fail: True
      with True have "reserve al target v = Inl length_error \<or> reserve al target v = Inl bad_alloc"
        by (auto simp add: reserve_def)
      with True fail nz step tgt show ?thesis
        by (auto simp add: NtIoOutputBuffer_write_def Let_def v_def [symmetric])
    next
      case ok: False
      with True have r: "reserve al target v = Inr (v\<lparr>capacity := target\<rparr>)"
        by (simp add: reserve_def)
      from finish [of "v\<lparr>capacity := target\<rparr>"] ge
      have "(case resize al newSize (v\<lparr>capacity := target\<rparr>) of
         Inl _ \<Rightarrow> (Inl Unexpected, this\<lparr>buffer_o := v\<lparr>capacity := target\<rparr>\<rparr>)
       | Inr v' \<Rightarrow>
           (case memcpy (drop (unat (vsize v)) (elems v')) requestBuffer requestSize of
              None \<Rightarrow> (Inl Undefined, this\<lparr>buffer_o := v'\<rparr>)
            | Some tail \<Rightarrow>
                (Inr (),
                 this\<lparr>buffer_o := v'\<lparr>elems := take (unat (vsize v)) (elems v') @ tail\<rparr>\<rparr>))) =
      (Inr (), this\<lparr>buffer_o :=
         \<lparr>elems = elems v @ take (unat requestSize) requestBuffer, capacity = target\<rparr>\<rparr>)"
        by simp
      with True ok nz step tgt r show ?thesis
        by (simp add: NtIoOutputBuffer_write_def Let_def v_def [symmetric] newSize_def [symmetric])
    qed
  qed
qed

lemma write_NtIoException:
  assumes "NtIoOutputBuffer_write al requestBuffer requestSize this = (Inl (NtIoException e), this')"
  shows "e = eioAllocation \<and> this' = this"
  using assms
  by (simp add: NtIoOutputBuffer_write_def Let_def
      split: if_splits option.splits sum.splits std_exception.splits)

lemma write_Inr_unfold:
  assumes w: "NtIoOutputBuffer_write al requestBuffer requestSize this = (Inr (), this')"
    and nz: "requestSize \<noteq> 0"
  obtains step v1 v' tail where
    "stepSize this = Some step"
    "v1 = (if capacity (buffer_o this)
              < newContainerSize_of (vsize (buffer_o this) + requestSize) (step - 1)
           then (buffer_o this)
             \<lparr>capacity := newContainerSize_of (vsize (buffer_o this) + requestSize) (step - 1)\<rparr>
           else buffer_o this)"
    "resize al (vsize (buffer_o this) + requestSize) v1 = Inr v'"
    "memcpy (drop (unat (vsize (buffer_o this))) (elems v')) requestBuffer requestSize = Some tail"
    "this' = this\<lparr>buffer_o := v'\<lparr>elems := take (unat (vsize (buffer_o this))) (elems v') @ tail\<rparr>\<rparr>"
proof -
  from w nz obtain step where step: "stepSize this = Some step"
    by (cases "stepSize this") (simp_all add: NtIoOutputBuffer_write_def Let_def)
  define v0 where "v0 = buffer_o this"
  define newSize where "newSize = vsize v0 + requestSize"
  define T where "T = newContainerSize_of newSize (step - 1)"
  define R where "R = (if capacity v0 < T then reserve al T v0 else Inr v0)"
  define v1 where "v1 = (if capacity v0 < T then v0\<lparr>capacity := T\<rparr> else v0)"
  have eq: "NtIoOutputBuffer_write al requestBuffer requestSize this =
      (case R of
         Inl length_error \<Rightarrow> (Inl (NtIoException eioAllocation), this)
       | Inl bad_alloc \<Rightarrow> (Inl (NtIoException eioAllocation), this)
       | Inr v \<Rightarrow>
           (case resize al newSize v of
              Inl _ \<Rightarrow> (Inl Unexpected, this\<lparr>buffer_o := v\<rparr>)
            | Inr v' \<Rightarrow>
                (case memcpy (drop (unat (vsize v0)) (elems v')) requestBuffer requestSize of
                   None \<Rightarrow> (Inl Undefined, this\<lparr>buffer_o := v'\<rparr>)
                 | Some tail \<Rightarrow>
                     (Inr (),
                      this\<lparr>buffer_o := v'\<lparr>elems := take (unat (vsize v0)) (elems v') @ tail\<rparr>\<rparr>))))"
    unfolding R_def T_def newSize_def v0_def using nz step
    by (simp add: NtIoOutputBuffer_write_def Let_def)
  from w eq obtain v where v: "R = Inr v"
    by (cases R) (simp_all split: std_exception.splits)
  then have "v = v1"
    unfolding R_def v1_def by (simp add: reserve_def split: if_splits)
  with v have r: "R = Inr v1"
    by simp
  from w eq r obtain v' where v': "resize al newSize v1 = Inr v'"
    by (cases "resize al newSize v1") simp_all
  from w eq r v' obtain tail
    where tail: "memcpy (drop (unat (vsize v0)) (elems v')) requestBuffer requestSize = Some tail"
    by (cases "memcpy (drop (unat (vsize v0)) (elems v')) requestBuffer requestSize") simp_all
  from w eq r v' tail
  have "this' = this\<lparr>buffer_o := v'\<lparr>elems := take (unat (vsize v0)) (elems v') @ tail\<rparr>\<rparr>"
    by simp
  with step v' tail show thesis
    using that [of step v1 v' tail] unfolding v1_def T_def newSize_def v0_def by simp
qed

lemma write_success:
  assumes w: "NtIoOutputBuffer_write al requestBuffer requestSize this = (Inr (), this')"
    and len: "length (elems (buffer_o this)) < 2 ^ 64"
  shows "elems (buffer_o this') = elems (buffer_o this) @ take (unat requestSize) requestBuffer"
    and "length (elems (buffer_o this)) + unat requestSize < 2 ^ 64"
    and "unat requestSize \<le> length requestBuffer"
    and "memoryStepping this' = memoryStepping this"
proof -
  define L where "L = length (elems (buffer_o this))"
  define n where "n = unat requestSize"
  have all: "elems (buffer_o this') = elems (buffer_o this) @ take n requestBuffer
      \<and> L + n < 2 ^ 64 \<and> n \<le> length requestBuffer
      \<and> memoryStepping this' = memoryStepping this"
  proof (cases "requestSize = 0")
    case True
    with w len show ?thesis
      by (simp add: NtIoOutputBuffer_write_def n_def L_def)
  next
    case False
    then have pos: "0 < n"
      by (simp add: n_def unat_gt_0)
    from w False obtain step v1 v' tail where
      v1: "v1 = (if capacity (buffer_o this)
              < newContainerSize_of (vsize (buffer_o this) + requestSize) (step - 1)
           then (buffer_o this)
             \<lparr>capacity := newContainerSize_of (vsize (buffer_o this) + requestSize) (step - 1)\<rparr>
           else buffer_o this)"
      and rs: "resize al (vsize (buffer_o this) + requestSize) v1 = Inr v'"
      and mc: "memcpy (drop (unat (vsize (buffer_o this))) (elems v')) requestBuffer requestSize
          = Some tail"
      and res: "this' = this\<lparr>buffer_o :=
          v'\<lparr>elems := take (unat (vsize (buffer_o this))) (elems v') @ tail\<rparr>\<rparr>"
      by (rule write_Inr_unfold)
    define N where "N = unat (vsize (buffer_o this) + requestSize)"
    from len have old: "unat (vsize (buffer_o this)) = L"
      by (simp add: unat_vsize L_def)
    from v1 have e1: "elems v1 = elems (buffer_o this)"
      by simp
    with len rs have ev: "elems v' = take N (elems (buffer_o this) @ replicate (N - L) 0)"
      unfolding N_def L_def using resize_elems [of al _ v1 v'] by simp
    then have lv: "length (elems v') = N"
      by (simp add: L_def)
    from mc have src: "n \<le> length requestBuffer" and dst: "n \<le> length (elems v') - L"
      and tail: "tail = take n requestBuffer @ drop n (drop L (elems v'))"
      unfolding old n_def by (simp_all add: memcpy_def split: if_splits)
    from dst lv pos have ge: "L + n \<le> N"
      by simp
    have "N = (if L + n < 2 ^ 64 then L + n else L + n - 2 ^ 64)"
      unfolding N_def n_def old [symmetric] by (simp add: unat_plus_if')
    with ge pos have fit: "L + n < 2 ^ 64" and N: "N = L + n"
      by (simp_all split: if_splits)
    from ev N have "elems v' = elems (buffer_o this) @ replicate n 0"
      by (simp add: L_def)
    with tail res old src show ?thesis
      using fit by (simp add: L_def)
  qed
  then show "elems (buffer_o this') = elems (buffer_o this) @ take (unat requestSize) requestBuffer"
    and "length (elems (buffer_o this)) + unat requestSize < 2 ^ 64"
    and "unat requestSize \<le> length requestBuffer"
    and "memoryStepping this' = memoryStepping this"
    by (simp_all add: n_def L_def)
qed

lemma multiple_below:
  fixes c k :: nat
  assumes "2 ^ k dvd c" "c < 2 ^ 64" "k \<le> 64"
  shows "c + 2 ^ k \<le> 2 ^ 64"
proof -
  from assms(3) have "(2 :: nat) ^ k dvd 2 ^ 64"
    by (rule le_imp_power_dvd)
  with assms(1) have "2 ^ k dvd 2 ^ 64 - c"
    by (simp add: dvd_diff_nat)
  moreover from assms(2) have "0 < (2 :: nat) ^ 64 - c"
    by simp
  ultimately have "2 ^ k \<le> (2 :: nat) ^ 64 - c"
    by (rule dvd_imp_le)
  with assms(2) show ?thesis
    by simp
qed

lemma write_returns_fit:
  assumes w: "NtIoOutputBuffer_write al requestBuffer requestSize this = (Inr (), this')"
    and nz: "requestSize \<noteq> 0"
    and ms: "memoryStepping this \<le> 29"
    and maxs: "max_size al \<le> PTRDIFF_MAX"
    and dvd: "2 ^ (unat (memoryStepping this) + 1) dvd unat (capacity (buffer_o this))"
    and ge: "length (elems (buffer_o this)) \<le> unat (capacity (buffer_o this))"
  shows "unat requestSize \<le> length requestBuffer
    \<and> length (elems (buffer_o this)) + unat requestSize
          + (2 ^ (unat (memoryStepping this) + 1) - 1) < 2 ^ 64"
proof -
  define L where "L = length (elems (buffer_o this))"
  define n where "n = unat requestSize"
  define k where "k = unat (memoryStepping this) + 1"
  define c where "c = unat (capacity (buffer_o this))"
  have c64: "c < 2 ^ 64"
    unfolding c_def using unsigned_less [of "capacity (buffer_o this)", where 'a = nat] by simp
  with ge have len: "length (elems (buffer_o this)) < 2 ^ 64"
    by (simp add: c_def)
  from w len have fit0: "L + n < 2 ^ 64" and src: "n \<le> length requestBuffer"
    unfolding L_def n_def by (rule write_success)+
  from nz have pos: "0 < n"
    by (simp add: n_def unat_gt_0)
  from ms have k30: "k \<le> 30"
    by (simp add: k_def word_le_nat_alt)
  then have k64: "k < 64"
    by simp
  from len have old: "unat (vsize (buffer_o this)) = L"
    by (simp add: unat_vsize L_def)
  from fit0 old have "unat (vsize (buffer_o this)) + unat requestSize < 2 ^ LENGTH(64)"
    by (simp add: n_def)
  then have "unat (vsize (buffer_o this) + requestSize)
      = unat (vsize (buffer_o this)) + unat requestSize"
    by (simp only: unat_add_lem)
  with old have new: "unat (vsize (buffer_o this) + requestSize) = L + n"
    by (simp add: n_def)
  have "L + n + (2 ^ k - 1) < 2 ^ 64"
  proof (rule ccontr)
    assume over: "\<not> L + n + (2 ^ k - 1) < 2 ^ 64"
    from w nz obtain step v1 v' where
      st: "stepSize this = Some step"
      and v1: "v1 = (if capacity (buffer_o this)
              < newContainerSize_of (vsize (buffer_o this) + requestSize) (step - 1)
           then (buffer_o this)
             \<lparr>capacity := newContainerSize_of (vsize (buffer_o this) + requestSize) (step - 1)\<rparr>
           else buffer_o this)"
      and rs: "resize al (vsize (buffer_o this) + requestSize) v1 = Inr v'"
      by (rule write_Inr_unfold)
    from ms st have step: "step = 2 ^ k"
      by (simp add: stepSize_pow2 k_def)
    from over new have "2 ^ 64 \<le> unat (vsize (buffer_o this) + requestSize) + (2 ^ k - 1)"
      by simp
    with k64 have "newContainerSize_of (vsize (buffer_o this) + requestSize) (2 ^ k - 1) = 0"
      by (rule newContainerSize_overflow)
    with v1 step have v1': "v1 = buffer_o this"
      by simp
    from dvd c64 k64 have "c + 2 ^ k \<le> 2 ^ 64"
      unfolding k_def [symmetric] c_def [symmetric] by (intro multiple_below) simp_all
    with over have "c < L + n"
      by simp
    with new have no_cap: "\<not> vsize (buffer_o this) + requestSize \<le> capacity (buffer_o this)"
      by (simp add: word_le_nat_alt c_def)
    from pos old new
    have no_shrink: "\<not> vsize (buffer_o this) + requestSize \<le> vsize (buffer_o this)"
      by (simp add: word_le_nat_alt)
    from k30 have "(2 :: nat) ^ k \<le> 2 ^ 30"
      by (intro power_increasing) simp_all
    with over have "2 ^ 63 \<le> L + n"
      by simp
    moreover from maxs have "unat (max_size al) < 2 ^ 63"
      by (simp add: PTRDIFF_MAX_def word_le_nat_alt)
    ultimately have "max_size al < vsize (buffer_o this) + requestSize"
      using new by (simp add: word_less_nat_alt)
    with no_cap no_shrink have "resize al (vsize (buffer_o this) + requestSize) (buffer_o this)
        = Inl length_error"
      by (simp add: resize_def)
    with rs v1' show False
      by simp
  qed
  with src show ?thesis
    by (simp add: L_def n_def k_def)
qed

lemma three_writes:
  assumes len: "length b1 = 10" "length b2 = 50" "length b3 = 10"
    and al: "can_allocate al 64" "can_allocate al 128" "128 \<le> max_size al"
  shows "write_all al [(b1, 10), (b2, 50), (b3, 10)] (new_NtIoOutputBuffer 5) =
     (Inr (), \<lparr>buffer_o = \<lparr>elems = b1 @ b2 @ b3, capacity = 128\<rparr>, memoryStepping = 5\<rparr>)"
proof -
  define s0 where "s0 = new_NtIoOutputBuffer 5"
  define s1 where "s1 = \<lparr>buffer_o = \<lparr>elems = b1, capacity = 64\<rparr>, memoryStepping = 5\<rparr>"
  define s2 where "s2 = \<lparr>buffer_o = \<lparr>elems = b1 @ b2, capacity = 64\<rparr>, memoryStepping = 5\<rparr>"
  define s3 where "s3 = \<lparr>buffer_o = \<lparr>elems = b1 @ b2 @ b3, capacity = 128\<rparr>, memoryStepping = 5\<rparr>"
  from al(3) have m64: "\<not> max_size al < 64"
    by (simp add: word_le_nat_alt word_less_nat_alt)
  from al(3) have m128: "\<not> max_size al < 128"
    by simp
  have t1: "newContainerSize_of (vsize (buffer_o s0) + 10) (2 ^ (unat (memoryStepping s0) + 1) - 1) = 64"
    by (simp add: s0_def new_NtIoOutputBuffer_def vsize_def newContainerSize_of_def)
  have w1: "NtIoOutputBuffer_write al b1 10 s0 = (Inr (), s1)"
  proof -
    have "NtIoOutputBuffer_write al b1 10 s0 =
      (if capacity (buffer_o s0) < 64 \<and> (max_size al < 64 \<or> \<not> can_allocate al 64)
       then (Inl (NtIoException eioAllocation), s0)
       else (Inr (),
             s0\<lparr>buffer_o :=
               \<lparr>elems = elems (buffer_o s0) @ take (unat (10 :: size_t)) b1,
                capacity = (if capacity (buffer_o s0) < 64 then 64
                            else capacity (buffer_o s0))\<rparr>\<rparr>))"
      unfolding t1 [symmetric]
      by (rule write_grows(2)) (simp_all add: s0_def new_NtIoOutputBuffer_def len)
    with len al m64 show ?thesis
      by (simp add: s0_def s1_def new_NtIoOutputBuffer_def)
  qed
  have t2: "newContainerSize_of (vsize (buffer_o s1) + 50) (2 ^ (unat (memoryStepping s1) + 1) - 1) = 64"
    using len by (simp add: s1_def vsize_def newContainerSize_of_def)
  have w2: "NtIoOutputBuffer_write al b2 50 s1 = (Inr (), s2)"
  proof -
    have "NtIoOutputBuffer_write al b2 50 s1 =
      (if capacity (buffer_o s1) < 64 \<and> (max_size al < 64 \<or> \<not> can_allocate al 64)
       then (Inl (NtIoException eioAllocation), s1)
       else (Inr (),
             s1\<lparr>buffer_o :=
               \<lparr>elems = elems (buffer_o s1) @ take (unat (50 :: size_t)) b2,
                capacity = (if capacity (buffer_o s1) < 64 then 64
                            else capacity (buffer_o s1))\<rparr>\<rparr>))"
      unfolding t2 [symmetric]
      by (rule write_grows(2)) (simp_all add: s1_def len)
    with len show ?thesis
      by (simp add: s1_def s2_def)
  qed
  have t3: "newContainerSize_of (vsize (buffer_o s2) + 10) (2 ^ (unat (memoryStepping s2) + 1) - 1) = 128"
    using len by (simp add: s2_def vsize_def newContainerSize_of_def)
  have w3: "NtIoOutputBuffer_write al b3 10 s2 = (Inr (), s3)"
  proof -
    have "NtIoOutputBuffer_write al b3 10 s2 =
      (if capacity (buffer_o s2) < 128 \<and> (max_size al < 128 \<or> \<not> can_allocate al 128)
       then (Inl (NtIoException eioAllocation), s2)
       else (Inr (),
             s2\<lparr>buffer_o :=
               \<lparr>elems = elems (buffer_o s2) @ take (unat (10 :: size_t)) b3,
                capacity = (if capacity (buffer_o s2) < 128 then 128
                            else capacity (buffer_o s2))\<rparr>\<rparr>))"
      unfolding t3 [symmetric]
      by (rule write_grows(2)) (simp_all add: s2_def len)
    with len al m128 show ?thesis
      by (simp add: s2_def s3_def)
  qed
  from w1 w2 w3 show ?thesis
    by (simp add: s0_def s3_def)
qed

text \<open>
  Where the shift of \<open>stepSize\<close> stays within \<open>int\<close> (a memory stepping of at
  most 29), the request buffer holds the requested bytes and the new length plus the mask
  does not exceed the largest \<open>size_t\<close>: a write of a size above zero computes the
  new length as the current length plus the size, and as target capacity the least
  multiple of the step size \<open>2 ^ (memoryStepping + 1)\<close> that is not below the new
  length. When the capacity is below the target the vector is grown to exactly the target
  (the write throws the allocation error when that fails), otherwise the capacity stays;
  then the content is the old content followed by the written bytes. Every write that
  returns meets the last two conditions, when the capacity is a multiple of the step size
  and not below the length and the vector accepts no size above \<open>PTRDIFF_MAX\<close>.
  With memory stepping 5 (step size 64) writes of 10, 50 and 10 bytes leave a content of
  70 bytes and a capacity of 128.
\<close>

lemma write_within_int:
  "(\<forall>al requestBuffer requestSize this.
      requestSize \<noteq> 0 \<and> memoryStepping this \<le> 29
      \<and> unat requestSize \<le> length requestBuffer
      \<and> length (elems (buffer_o this)) + unat requestSize
            + (2 ^ (unat (memoryStepping this) + 1) - 1) < 2 ^ 64 \<longrightarrow>
      (let newLength = length (elems (buffer_o this)) + unat requestSize;
           target = newContainerSize_of (vsize (buffer_o this) + requestSize)
                      (2 ^ (unat (memoryStepping this) + 1) - 1)
       in stepSize this = Some (2 ^ (unat (memoryStepping this) + 1))
          \<and> unat (vsize (buffer_o this) + requestSize) = newLength
          \<and> least_multiple_above (2 ^ (unat (memoryStepping this) + 1)) newLength (unat target)
          \<and> NtIoOutputBuffer_write al requestBuffer requestSize this =
              (if capacity (buffer_o this) < target
                  \<and> (max_size al < target \<or> \<not> can_allocate al target)
               then (Inl (NtIoException eioAllocation), this)
               else (Inr (),
                     this\<lparr>buffer_o :=
                       \<lparr>elems = elems (buffer_o this) @ take (unat requestSize) requestBuffer,
                        capacity = (if capacity (buffer_o this) < target then target
                                    else capacity (buffer_o this))\<rparr>\<rparr>))))
   \<and> (\<forall>al requestBuffer requestSize this this'.
        requestSize \<noteq> 0 \<and> memoryStepping this \<le> 29 \<and> max_size al \<le> PTRDIFF_MAX
        \<and> 2 ^ (unat (memoryStepping this) + 1) dvd unat (capacity (buffer_o this))
        \<and> length (elems (buffer_o this)) \<le> unat (capacity (buffer_o this))
        \<and> NtIoOutputBuffer_write al requestBuffer requestSize this = (Inr (), this') \<longrightarrow>
        unat requestSize \<le> length requestBuffer
        \<and> length (elems (buffer_o this)) + unat requestSize
              + (2 ^ (unat (memoryStepping this) + 1) - 1) < 2 ^ 64)
   \<and> (\<forall>al b1 b2 b3.
        length b1 = 10 \<and> length b2 = 50 \<and> length b3 = 10
        \<and> can_allocate al 64 \<and> can_allocate al 128 \<and> 128 \<le> max_size al \<longrightarrow>
        write_all al [(b1, 10), (b2, 50), (b3, 10)] (new_NtIoOutputBuffer 5) =
          (Inr (), \<lparr>buffer_o = \<lparr>elems = b1 @ b2 @ b3, capacity = 128\<rparr>, memoryStepping = 5\<rparr>)
        \<and> NtIoOutputBuffer_size
             \<lparr>buffer_o = \<lparr>elems = b1 @ b2 @ b3, capacity = 128\<rparr>, memoryStepping = 5\<rparr> = 70)"
proof (intro conjI allI impI)
  fix al :: vector_impl and requestBuffer :: "int8_t list"
    and requestSize :: size_t and this :: NtIoOutputBuffer
  assume a: "requestSize \<noteq> 0 \<and> memoryStepping this \<le> 29
      \<and> unat requestSize \<le> length requestBuffer
      \<and> length (elems (buffer_o this)) + unat requestSize
            + (2 ^ (unat (memoryStepping this) + 1) - 1) < 2 ^ 64"
  then have nz: "requestSize \<noteq> 0" and ms: "memoryStepping this \<le> 29"
    and src: "unat requestSize \<le> length requestBuffer"
    and fit: "length (elems (buffer_o this)) + unat requestSize
            + (2 ^ (unat (memoryStepping this) + 1) - 1) < 2 ^ 64"
    by simp_all
  from fit have "length (elems (buffer_o this)) + unat requestSize < 2 ^ 64"
    by linarith
  then have old: "unat (vsize (buffer_o this)) = length (elems (buffer_o this))"
    and "unat (vsize (buffer_o this)) + unat requestSize < 2 ^ LENGTH(64)"
    by (simp_all add: unat_vsize)
  from this(2) have "unat (vsize (buffer_o this) + requestSize) =
      unat (vsize (buffer_o this)) + unat requestSize"
    by (simp only: unat_add_lem)
  with old have new: "unat (vsize (buffer_o this) + requestSize) =
      length (elems (buffer_o this)) + unat requestSize"
    by simp
  show "let newLength = length (elems (buffer_o this)) + unat requestSize;
           target = newContainerSize_of (vsize (buffer_o this) + requestSize)
                      (2 ^ (unat (memoryStepping this) + 1) - 1)
       in stepSize this = Some (2 ^ (unat (memoryStepping this) + 1))
          \<and> unat (vsize (buffer_o this) + requestSize) = newLength
          \<and> least_multiple_above (2 ^ (unat (memoryStepping this) + 1)) newLength (unat target)
          \<and> NtIoOutputBuffer_write al requestBuffer requestSize this =
              (if capacity (buffer_o this) < target
                  \<and> (max_size al < target \<or> \<not> can_allocate al target)
               then (Inl (NtIoException eioAllocation), this)
               else (Inr (),
                     this\<lparr>buffer_o :=
                       \<lparr>elems = elems (buffer_o this) @ take (unat requestSize) requestBuffer,
                        capacity = (if capacity (buffer_o this) < target then target
                                    else capacity (buffer_o this))\<rparr>\<rparr>))"
    unfolding Let_def
    using stepSize_pow2 [OF ms] new write_grows(1) [OF nz ms src fit]
      write_grows(2) [OF nz ms src fit, of al]
    by (intro conjI)
next
  fix al :: vector_impl and requestBuffer :: "int8_t list"
    and requestSize :: size_t and this this' :: NtIoOutputBuffer
  assume a: "requestSize \<noteq> 0 \<and> memoryStepping this \<le> 29 \<and> max_size al \<le> PTRDIFF_MAX
        \<and> 2 ^ (unat (memoryStepping this) + 1) dvd unat (capacity (buffer_o this))
        \<and> length (elems (buffer_o this)) \<le> unat (capacity (buffer_o this))
        \<and> NtIoOutputBuffer_write al requestBuffer requestSize this = (Inr (), this')"
  then have "unat requestSize \<le> length requestBuffer
    \<and> length (elems (buffer_o this)) + unat requestSize
          + (2 ^ (unat (memoryStepping this) + 1) - 1) < 2 ^ 64"
    by (intro write_returns_fit [of al requestBuffer requestSize this this']) simp_all
  then show "unat requestSize \<le> length requestBuffer"
    and "length (elems (buffer_o this)) + unat requestSize
          + (2 ^ (unat (memoryStepping this) + 1) - 1) < 2 ^ 64"
    by (rule conjunct1, rule conjunct2)
next
  fix al :: vector_impl and b1 b2 b3 :: "int8_t list"
  assume a: "length b1 = 10 \<and> length b2 = 50 \<and> length b3 = 10
        \<and> can_allocate al 64 \<and> can_allocate al 128 \<and> 128 \<le> max_size al"
  then show "write_all al [(b1, 10), (b2, 50), (b3, 10)] (new_NtIoOutputBuffer 5) =
          (Inr (), \<lparr>buffer_o = \<lparr>elems = b1 @ b2 @ b3, capacity = 128\<rparr>, memoryStepping = 5\<rparr>)"
    by (intro three_writes) simp_all
  from a show "NtIoOutputBuffer_size
      \<lparr>buffer_o = \<lparr>elems = b1 @ b2 @ b3, capacity = 128\<rparr>, memoryStepping = 5\<rparr> = 70"
    by (simp add: NtIoOutputBuffer_size_def vsize_def)
qed

lemma write_within_int_example:
  "(10 :: size_t) \<noteq> 0 \<and> memoryStepping (new_NtIoOutputBuffer 5) \<le> 29
   \<and> unat (10 :: size_t) \<le> length (replicate 10 (1 :: int8_t))
   \<and> stepSize (new_NtIoOutputBuffer 5) = Some 64
   \<and> least_multiple_above 64 10 (unat (64 :: size_t))
   \<and> NtIoOutputBuffer_write al_example (replicate 10 1) 10 (new_NtIoOutputBuffer 5) =
       (Inr (), \<lparr>buffer_o = \<lparr>elems = replicate 10 1, capacity = 64\<rparr>, memoryStepping = 5\<rparr>)
   \<and> write_all al_example [(replicate 10 1, 10), (replicate 50 2, 50), (replicate 10 3, 10)]
        (new_NtIoOutputBuffer 5) =
       (Inr (), \<lparr>buffer_o = \<lparr>elems = replicate 10 1 @ replicate 50 2 @ replicate 10 3,
                               capacity = 128\<rparr>, memoryStepping = 5\<rparr>)
   \<and> NtIoOutputBuffer_size
        \<lparr>buffer_o = \<lparr>elems = replicate 10 1 @ replicate 50 2 @ replicate 10 3,
                      capacity = 128\<rparr>, memoryStepping = 5\<rparr> = 70"
proof -
  note t = write_within_int
  have hyp: "(10 :: size_t) \<noteq> 0 \<and> memoryStepping (new_NtIoOutputBuffer 5) \<le> 29
      \<and> unat (10 :: size_t) \<le> length (replicate 10 (1 :: int8_t))
      \<and> length (elems (buffer_o (new_NtIoOutputBuffer 5))) + unat (10 :: size_t)
            + (2 ^ (unat (memoryStepping (new_NtIoOutputBuffer 5)) + 1) - 1) < 2 ^ 64"
    by (simp add: new_NtIoOutputBuffer_def)
  have tgt: "newContainerSize_of (vsize (buffer_o (new_NtIoOutputBuffer 5)) + 10) (64 - 1) = 64"
    by (simp add: new_NtIoOutputBuffer_def vsize_def newContainerSize_of_def)
  have pw: "(2 :: size_t) ^ (unat (memoryStepping (new_NtIoOutputBuffer 5)) + 1) = 64"
    "(2 :: nat) ^ (unat (memoryStepping (new_NtIoOutputBuffer 5)) + 1) = 64"
    by (simp_all add: new_NtIoOutputBuffer_def)
  note one = t [THEN conjunct1, rule_format, OF hyp, of al_example,
    unfolded Let_def pw, unfolded tgt]
  from one have step: "stepSize (new_NtIoOutputBuffer 5) = Some 64"
    by (rule conjunct1)
  from one have least: "least_multiple_above 64
      (length (elems (buffer_o (new_NtIoOutputBuffer 5))) + unat (10 :: size_t))
      (unat (64 :: size_t))"
    by (elim conjE)
  then have least': "least_multiple_above 64 10 (unat (64 :: size_t))"
    by (simp add: new_NtIoOutputBuffer_def)
  from one have "NtIoOutputBuffer_write al_example (replicate 10 1) 10 (new_NtIoOutputBuffer 5) =
      (if capacity (buffer_o (new_NtIoOutputBuffer 5)) < 64
          \<and> (max_size al_example < 64 \<or> \<not> can_allocate al_example 64)
       then (Inl (NtIoException eioAllocation), new_NtIoOutputBuffer 5)
       else (Inr (),
             new_NtIoOutputBuffer 5\<lparr>buffer_o :=
               \<lparr>elems = elems (buffer_o (new_NtIoOutputBuffer 5))
                          @ take (unat (10 :: size_t)) (replicate 10 1),
                capacity = (if capacity (buffer_o (new_NtIoOutputBuffer 5)) < 64 then 64
                            else capacity (buffer_o (new_NtIoOutputBuffer 5)))\<rparr>\<rparr>))"
    by (elim conjE)
  then have w: "NtIoOutputBuffer_write al_example (replicate 10 1) 10 (new_NtIoOutputBuffer 5) =
       (Inr (), \<lparr>buffer_o = \<lparr>elems = replicate 10 1, capacity = 64\<rparr>, memoryStepping = 5\<rparr>)"
    by (simp add: new_NtIoOutputBuffer_def al_example_def PTRDIFF_MAX_def)
  have ex: "length (replicate 10 (1 :: int8_t)) = 10 \<and> length (replicate 50 (2 :: int8_t)) = 50
      \<and> length (replicate 10 (3 :: int8_t)) = 10
      \<and> can_allocate al_example 64 \<and> can_allocate al_example 128
      \<and> 128 \<le> max_size al_example"
    by (simp add: al_example_def PTRDIFF_MAX_def)
  note three = t [THEN conjunct2, THEN conjunct2, rule_format, OF ex]
  have reach: "(10 :: size_t) \<noteq> 0 \<and> memoryStepping (new_NtIoOutputBuffer 5) \<le> 29
      \<and> max_size al_example \<le> PTRDIFF_MAX
      \<and> 2 ^ (unat (memoryStepping (new_NtIoOutputBuffer 5)) + 1)
            dvd unat (capacity (buffer_o (new_NtIoOutputBuffer 5)))
      \<and> length (elems (buffer_o (new_NtIoOutputBuffer 5)))
            \<le> unat (capacity (buffer_o (new_NtIoOutputBuffer 5)))
      \<and> NtIoOutputBuffer_write al_example (replicate 10 1) 10 (new_NtIoOutputBuffer 5) =
          (Inr (), \<lparr>buffer_o = \<lparr>elems = replicate 10 1, capacity = 64\<rparr>,
                     memoryStepping = 5\<rparr>)"
    using w by (simp add: new_NtIoOutputBuffer_def al_example_def)
  note returned = t [THEN conjunct2, THEN conjunct1, rule_format, OF reach, THEN conjunct1]
  from hyp step least' w three returned show ?thesis
    by (intro conjI) simp_all
qed

text \<open>
  When the capacity is below the target and \<open>reserve\<close> fails, because the target
  exceeds the largest size of the vector (\<open>std::length_error\<close>) or because the
  allocation fails (\<open>std::bad_alloc\<close>), the write throws the allocation error and
  leaves the object as it was: content, length and capacity. No write throws another
  \<open>NtIoException\<close>, and none throws one with the object changed.
\<close>

lemma write_reserve_failure:
  assumes nz: "requestSize \<noteq> 0" and step: "stepSize this = Some step"
    and small: "capacity (buffer_o this)
      < newContainerSize_of (vsize (buffer_o this) + requestSize) (step - 1)"
    and fail: "max_size al < newContainerSize_of (vsize (buffer_o this) + requestSize) (step - 1)
      \<or> \<not> can_allocate al
            (newContainerSize_of (vsize (buffer_o this) + requestSize) (step - 1))"
  shows "(reserve al (newContainerSize_of (vsize (buffer_o this) + requestSize) (step - 1))
            (buffer_o this) = Inl length_error
          \<or> reserve al (newContainerSize_of (vsize (buffer_o this) + requestSize) (step - 1))
            (buffer_o this) = Inl bad_alloc)
       \<and> NtIoOutputBuffer_write al requestBuffer requestSize this =
            (Inl (NtIoException eioAllocation), this)
       \<and> (\<forall>al' requestBuffer' requestSize' that e that'.
            NtIoOutputBuffer_write al' requestBuffer' requestSize' that =
              (Inl (NtIoException e), that') \<longrightarrow> e = eioAllocation \<and> that' = that)"
proof -
  define T where "T = newContainerSize_of (vsize (buffer_o this) + requestSize) (step - 1)"
  from small fail have r: "reserve al T (buffer_o this) = Inl length_error
      \<or> reserve al T (buffer_o this) = Inl bad_alloc"
    unfolding T_def [symmetric] by (auto simp add: reserve_def)
  with nz step small have w: "NtIoOutputBuffer_write al requestBuffer requestSize this =
      (Inl (NtIoException eioAllocation), this)"
    unfolding T_def by (auto simp add: NtIoOutputBuffer_write_def Let_def)
  have only: "\<forall>al' requestBuffer' requestSize' that e that'.
      NtIoOutputBuffer_write al' requestBuffer' requestSize' that =
        (Inl (NtIoException e), that') \<longrightarrow> e = eioAllocation \<and> that' = that"
    using write_NtIoException by blast
  from r w only show ?thesis
    unfolding T_def by (intro conjI)
qed

lemma write_reserve_failure_example:
  "(10 :: size_t) \<noteq> 0 \<and> stepSize buffer_example = Some 64
   \<and> newContainerSize_of (vsize (buffer_o buffer_example) + 10) (64 - 1) = 128
   \<and> capacity (buffer_o buffer_example) < 128
   \<and> can_allocate al_exhausted 128 = False
   \<and> NtIoOutputBuffer_write al_exhausted (replicate 10 1) 10 buffer_example =
       (Inl (NtIoException eioAllocation), buffer_example)"
proof -
  have nz: "(10 :: size_t) \<noteq> 0"
    by simp
  have "memoryStepping buffer_example \<le> 29"
    by (simp add: buffer_example_def)
  then have "stepSize buffer_example = Some (2 ^ (unat (memoryStepping buffer_example) + 1))"
    by (rule stepSize_pow2)
  then have step: "stepSize buffer_example = Some 64"
    by (simp add: buffer_example_def)
  have T: "newContainerSize_of (vsize (buffer_o buffer_example) + 10) (64 - 1) = 128"
    by (simp add: buffer_example_def vsize_def newContainerSize_of_def)
  have small: "capacity (buffer_o buffer_example)
      < newContainerSize_of (vsize (buffer_o buffer_example) + 10) (64 - 1)"
    unfolding T by (simp add: buffer_example_def)
  have no: "can_allocate al_exhausted 128 = False"
    by (simp add: al_exhausted_def)
  then have fail: "max_size al_exhausted
        < newContainerSize_of (vsize (buffer_o buffer_example) + 10) (64 - 1)
      \<or> \<not> can_allocate al_exhausted
            (newContainerSize_of (vsize (buffer_o buffer_example) + 10) (64 - 1))"
    unfolding T by simp
  from write_reserve_failure [OF nz step small fail, of "replicate 10 1"]
  have "NtIoOutputBuffer_write al_exhausted (replicate 10 1) 10 buffer_example =
       (Inl (NtIoException eioAllocation), buffer_example)"
    by (elim conjE)
  with nz step T small [unfolded T] no show ?thesis
    by (intro conjI)
qed

section \<open>The output buffer: a memory stepping of 30\<close>

text \<open>
  With a memory stepping of 30 the shift of \<open>stepSize\<close> is \<open>1 << 31\<close>, which
  sets the sign bit of the \<open>int\<close>; converted to \<open>size_t\<close> the step size is
  \<open>2 ^ 64 - 2 ^ 31\<close>. Rounded with its mask, a new length of \<open>2 ^ 31 + 1\<close>
  bytes gives the target 0.
\<close>

lemma stepSize_30: "stepSize (new_NtIoOutputBuffer 30) = Some 18446744071562067968"
  by (simp add: stepSize_def new_NtIoOutputBuffer_def)

lemma target_30:
  "newContainerSize_of (vsize (buffer_o (new_NtIoOutputBuffer 30)) + 2147483649)
     (18446744071562067968 - 1) = 0"
  by (simp add: newContainerSize_of_def new_NtIoOutputBuffer_def vsize_def)

text \<open>
  C3: the target capacity is not always the smallest multiple of
  \<open>2 ^ (memoryStepping + 1)\<close> that is not below the new length. An output buffer
  made with memory stepping 30 has the step size \<open>2 ^ 64 - 2 ^ 31\<close>
  (18446744071562067968), not \<open>2 ^ 31\<close>; a first write of \<open>2 ^ 31 + 1\<close> bytes computes the target 0, where
  the smallest multiple of \<open>2 ^ 31\<close> not below the new length is \<open>2 ^ 32\<close>. The
  write reserves nothing and returns with the bytes written, and the capacity is the one
  \<open>resize\<close> picked: with a vector that allocates what is asked for,
  \<open>2 ^ 31 + 1\<close>, which is no multiple of \<open>2 ^ 31\<close>.
\<close>

theorem NtIoOutputBuffer_write_stepping_30:
  "stepSize (new_NtIoOutputBuffer 30) = Some 18446744071562067968
   \<and> unat (18446744071562067968 :: size_t) = 2 ^ 64 - 2 ^ 31
   \<and> stepSize (new_NtIoOutputBuffer 30) \<noteq> Some (2 ^ 31)
   \<and> newContainerSize_of (vsize (buffer_o (new_NtIoOutputBuffer 30)) + (2 ^ 31 + 1))
         (18446744071562067968 - 1) = 0
   \<and> NtIoOutputBuffer_write al_example (replicate (2 ^ 31 + 1) 0) (2 ^ 31 + 1)
         (new_NtIoOutputBuffer 30) =
       (Inr (), \<lparr>buffer_o = \<lparr>elems = replicate (2 ^ 31 + 1) 0, capacity = 2 ^ 31 + 1\<rparr>,
                  memoryStepping = 30\<rparr>)
   \<and> \<not> (2 :: nat) ^ 31 dvd unat (2 ^ 31 + 1 :: size_t)
   \<and> unat (2 ^ 31 + 1 :: size_t) < 2 ^ 32 \<and> (2 :: nat) ^ 31 dvd 2 ^ 32"
proof -
  have n: "(2 :: size_t) ^ 31 + 1 = 2147483649" "(2 :: nat) ^ 31 + 1 = 2147483649"
    by simp_all
  have step: "stepSize (new_NtIoOutputBuffer 30) = Some 18446744071562067968"
    by (rule stepSize_30)
  have dec: "unat (18446744071562067968 :: size_t) = 2 ^ 64 - 2 ^ 31"
    by simp
  from step have other: "stepSize (new_NtIoOutputBuffer 30) \<noteq> Some (2 ^ 31)"
    by simp
  have target: "newContainerSize_of (vsize (buffer_o (new_NtIoOutputBuffer 30)) + (2 ^ 31 + 1))
      (18446744071562067968 - 1) = 0"
    unfolding n by (rule target_30)
  have "NtIoOutputBuffer_write al_example (replicate 2147483649 0) 2147483649
      (new_NtIoOutputBuffer 30) =
     (Inr (), \<lparr>buffer_o = \<lparr>elems = replicate 2147483649 0, capacity = 2147483649\<rparr>,
                memoryStepping = 30\<rparr>)"
    using stepSize_30 target_30
    by (simp add: NtIoOutputBuffer_write_def Let_def new_NtIoOutputBuffer_def vsize_def
        resize_def memcpy_def al_example_def PTRDIFF_MAX_def)
  then have w: "NtIoOutputBuffer_write al_example (replicate (2 ^ 31 + 1) 0) (2 ^ 31 + 1)
         (new_NtIoOutputBuffer 30) =
       (Inr (), \<lparr>buffer_o = \<lparr>elems = replicate (2 ^ 31 + 1) 0, capacity = 2 ^ 31 + 1\<rparr>,
                  memoryStepping = 30\<rparr>)"
    unfolding n .
  have no: "\<not> (2 :: nat) ^ 31 dvd unat (2 ^ 31 + 1 :: size_t)"
    by simp
  have next_multiple: "unat (2 ^ 31 + 1 :: size_t) < 2 ^ 32" "(2 :: nat) ^ 31 dvd 2 ^ 32"
    by simp_all
  from step dec other target w no next_multiple show ?thesis
    by (intro conjI)
qed

text \<open>
  C8: a failure to grow the storage does not always make the write throw the allocation
  error. Only \<open>reserve\<close> is called inside the \<open>try\<close> block, and only when the
  capacity is below the target. When the target comes out below the new length,
  \<open>reserve\<close> is skipped or too small and the storage grows in \<open>resize\<close>, whose
  exception is not caught: it is none the function may throw. So for the output buffer
  with memory stepping 30 and a first write of \<open>2 ^ 31 + 1\<close> bytes (target 0), when
  the allocation is refused; and so for the default memory stepping 5 and a size of
  \<open>SIZE_MAX\<close>, where the rounding wraps and the vector refuses the length. The object
  is as before in both.
\<close>

theorem NtIoOutputBuffer_write_growth_unexpected:
  "NtIoOutputBuffer_write al_exhausted (replicate (2 ^ 31 + 1) 0) (2 ^ 31 + 1)
      (new_NtIoOutputBuffer 30) = (Inl Unexpected, new_NtIoOutputBuffer 30)
   \<and> can_allocate al_exhausted (2 ^ 31 + 1) = False
   \<and> resize al_exhausted (2 ^ 31 + 1) (buffer_o (new_NtIoOutputBuffer 30)) = Inl bad_alloc
   \<and> NtIoOutputBuffer_write al_example [1] (- 1) (new_NtIoOutputBuffer 5) =
       (Inl Unexpected, new_NtIoOutputBuffer 5)
   \<and> resize al_example (- 1) (buffer_o (new_NtIoOutputBuffer 5)) = Inl length_error
   \<and> Inl Unexpected \<noteq> (Inl (NtIoException eioAllocation) :: failure + unit)"
proof -
  have n: "(2 :: size_t) ^ 31 + 1 = 2147483649" "(2 :: nat) ^ 31 + 1 = 2147483649"
    by simp_all
  have "NtIoOutputBuffer_write al_exhausted (replicate 2147483649 0) 2147483649
      (new_NtIoOutputBuffer 30) = (Inl Unexpected, new_NtIoOutputBuffer 30)"
    using stepSize_30 target_30
    by (simp add: NtIoOutputBuffer_write_def Let_def new_NtIoOutputBuffer_def vsize_def
        resize_def al_exhausted_def PTRDIFF_MAX_def)
  then have refused: "NtIoOutputBuffer_write al_exhausted (replicate (2 ^ 31 + 1) 0)
      (2 ^ 31 + 1) (new_NtIoOutputBuffer 30) = (Inl Unexpected, new_NtIoOutputBuffer 30)"
    unfolding n .
  have no: "can_allocate al_exhausted (2 ^ 31 + 1) = False"
    by (simp add: al_exhausted_def)
  have r1: "resize al_exhausted (2 ^ 31 + 1) (buffer_o (new_NtIoOutputBuffer 30)) =
      Inl bad_alloc"
    by (simp add: resize_def new_NtIoOutputBuffer_def vsize_def al_exhausted_def
        PTRDIFF_MAX_def)
  have wrap: "NtIoOutputBuffer_write al_example [1] (- 1) (new_NtIoOutputBuffer 5) =
      (Inl Unexpected, new_NtIoOutputBuffer 5)"
    by (simp add: NtIoOutputBuffer_write_def Let_def new_NtIoOutputBuffer_def vsize_def
        stepSize_def newContainerSize_of_def resize_def al_example_def PTRDIFF_MAX_def)
  have r2: "resize al_example (- 1) (buffer_o (new_NtIoOutputBuffer 5)) = Inl length_error"
    by (simp add: resize_def new_NtIoOutputBuffer_def vsize_def al_example_def
        PTRDIFF_MAX_def)
  have differ: "Inl Unexpected \<noteq> (Inl (NtIoException eioAllocation) :: failure + unit)"
    by simp
  from refused no r1 wrap r2 differ show ?thesis
    by (intro conjI)
qed

section \<open>The output buffer: sequences of writes\<close>

lemma write_keeps_capacity:
  assumes w: "NtIoOutputBuffer_write al requestBuffer requestSize this = (Inr (), this')"
    and ms: "memoryStepping this \<le> 29"
    and maxs: "max_size al \<le> PTRDIFF_MAX"
    and dvd: "2 ^ (unat (memoryStepping this) + 1) dvd unat (capacity (buffer_o this))"
    and ge: "length (elems (buffer_o this)) \<le> unat (capacity (buffer_o this))"
  shows "2 ^ (unat (memoryStepping this) + 1) dvd unat (capacity (buffer_o this'))
    \<and> length (elems (buffer_o this')) \<le> unat (capacity (buffer_o this'))"
proof (cases "requestSize = 0")
  case True
  with w dvd ge show ?thesis
    by (simp add: NtIoOutputBuffer_write_def)
next
  case nz: False
  define target where "target = newContainerSize_of (vsize (buffer_o this) + requestSize)
    (2 ^ (unat (memoryStepping this) + 1) - 1)"
  from w nz ms maxs dvd ge
  have "unat requestSize \<le> length requestBuffer
    \<and> length (elems (buffer_o this)) + unat requestSize
          + (2 ^ (unat (memoryStepping this) + 1) - 1) < 2 ^ 64"
    by (rule write_returns_fit)
  then have src: "unat requestSize \<le> length requestBuffer"
    and fit: "length (elems (buffer_o this)) + unat requestSize
          + (2 ^ (unat (memoryStepping this) + 1) - 1) < 2 ^ 64"
    by (rule conjunct1, rule conjunct2)
  have least: "least_multiple_above (2 ^ (unat (memoryStepping this) + 1))
      (length (elems (buffer_o this)) + unat requestSize) (unat target)"
    unfolding target_def using nz ms src fit by (rule write_grows(1))
  have "NtIoOutputBuffer_write al requestBuffer requestSize this =
    (if capacity (buffer_o this) < target \<and> (max_size al < target \<or> \<not> can_allocate al target)
     then (Inl (NtIoException eioAllocation), this)
     else (Inr (),
           this\<lparr>buffer_o :=
             \<lparr>elems = elems (buffer_o this) @ take (unat requestSize) requestBuffer,
              capacity = (if capacity (buffer_o this) < target then target
                          else capacity (buffer_o this))\<rparr>\<rparr>))"
    unfolding target_def using nz ms src fit by (rule write_grows(2))
  with w have res: "this' = this\<lparr>buffer_o :=
             \<lparr>elems = elems (buffer_o this) @ take (unat requestSize) requestBuffer,
              capacity = (if capacity (buffer_o this) < target then target
                          else capacity (buffer_o this))\<rparr>\<rparr>"
    by (simp split: if_splits)
  from src have lenr: "length (elems (buffer_o this'))
      = length (elems (buffer_o this)) + unat requestSize"
    unfolding res by simp
  show ?thesis
  proof (cases "capacity (buffer_o this) < target")
    case grow: True
    with res have "capacity (buffer_o this') = target"
      by simp
    with least lenr show ?thesis
      by (simp add: least_multiple_above_def)
  next
    case keep: False
    then have "unat target \<le> unat (capacity (buffer_o this))"
      by (simp add: word_less_nat_alt)
    moreover from least have "length (elems (buffer_o this)) + unat requestSize \<le> unat target"
      by (simp add: least_multiple_above_def)
    moreover from keep res have "capacity (buffer_o this') = capacity (buffer_o this)"
      by simp
    ultimately show ?thesis
      using dvd lenr by simp
  qed
qed

lemma write_all_invariant:
  assumes "memoryStepping this \<le> 29" "max_size al \<le> PTRDIFF_MAX"
    and "2 ^ (unat (memoryStepping this) + 1) dvd unat (capacity (buffer_o this))"
    and "length (elems (buffer_o this)) \<le> unat (capacity (buffer_o this))"
    and "write_all al requests this = (out, this')"
    and "out \<noteq> Inl Unexpected" "out \<noteq> Inl Undefined"
  shows "memoryStepping this' = memoryStepping this
    \<and> 2 ^ (unat (memoryStepping this) + 1) dvd unat (capacity (buffer_o this'))
    \<and> length (elems (buffer_o this')) \<le> unat (capacity (buffer_o this'))"
  using assms
proof (induction requests arbitrary: this)
  case Nil
  then show ?case by simp
next
  case (Cons request requests)
  obtain requestBuffer requestSize where request: "request = (requestBuffer, requestSize)"
    by (cases request)
  obtain out1 this1
    where w: "NtIoOutputBuffer_write al requestBuffer requestSize this = (out1, this1)"
    by (cases "NtIoOutputBuffer_write al requestBuffer requestSize this")
  show ?case
  proof (cases out1)
    case (Inl f)
    with Cons.prems(5) request w have "out = Inl f" "this' = this1"
      by simp_all
    with Cons.prems(6,7) obtain e where "f = NtIoException e"
      by (cases f) simp_all
    with w Inl have "this1 = this"
      using write_NtIoException by blast
    with \<open>this' = this1\<close> Cons.prems(3,4) show ?thesis
      by simp
  next
    case (Inr u)
    with w have w': "NtIoOutputBuffer_write al requestBuffer requestSize this = (Inr (), this1)"
      by simp
    have "length (elems (buffer_o this)) < 2 ^ 64"
      using Cons.prems(4) unsigned_less [of "capacity (buffer_o this)", where 'a = nat]
      by simp
    with w' have same: "memoryStepping this1 = memoryStepping this"
      by (rule write_success)
    from w' Cons.prems(1-4)
    have inv: "2 ^ (unat (memoryStepping this) + 1) dvd unat (capacity (buffer_o this1))
        \<and> length (elems (buffer_o this1)) \<le> unat (capacity (buffer_o this1))"
      by (rule write_keeps_capacity)
    from Cons.prems(5) request w' have "write_all al requests this1 = (out, this')"
      by simp
    with same inv Cons.prems(1,2,6,7)
    have "memoryStepping this' = memoryStepping this1
      \<and> 2 ^ (unat (memoryStepping this1) + 1) dvd unat (capacity (buffer_o this'))
      \<and> length (elems (buffer_o this')) \<le> unat (capacity (buffer_o this'))"
      by (intro Cons.IH) simp_all
    with same show ?thesis
      by simp
  qed
qed

text \<open>
  C5, as the code has it: after every sequence of writes on a new output buffer that
  ends without \<open>std::unexpected\<close> and without undefined behaviour, the capacity is a
  multiple of the step size \<open>2 ^ (memoryStepping + 1)\<close> and not below the length of
  the content. The multiple need not be a power of two. The memory stepping is at most
  29 and the vector accepts no size above \<open>PTRDIFF_MAX\<close>.
\<close>

theorem capacity_invariant:
  assumes "ms \<le> 29" "max_size al \<le> PTRDIFF_MAX"
    and "write_all al requests (new_NtIoOutputBuffer ms) = (out, this')"
    and "out \<noteq> Inl Unexpected" "out \<noteq> Inl Undefined"
  shows "2 ^ (unat ms + 1) dvd unat (capacity (buffer_o this'))
    \<and> length (NtIoOutputBuffer_data this') \<le> unat (capacity (buffer_o this'))
    \<and> NtIoOutputBuffer_size this' \<le> capacity (buffer_o this')"
proof -
  have "memoryStepping this' = memoryStepping (new_NtIoOutputBuffer ms)
    \<and> 2 ^ (unat (memoryStepping (new_NtIoOutputBuffer ms)) + 1)
        dvd unat (capacity (buffer_o this'))
    \<and> length (elems (buffer_o this')) \<le> unat (capacity (buffer_o this'))"
    using assms by (intro write_all_invariant) (simp_all add: new_NtIoOutputBuffer_def)
  then have dvd: "2 ^ (unat ms + 1) dvd unat (capacity (buffer_o this'))"
    and ge: "length (elems (buffer_o this')) \<le> unat (capacity (buffer_o this'))"
    by (simp_all add: new_NtIoOutputBuffer_def)
  from ge have "length (elems (buffer_o this')) < 2 ^ 64"
    using unsigned_less [of "capacity (buffer_o this')", where 'a = nat] by simp
  then have "unat (vsize (buffer_o this')) = length (elems (buffer_o this'))"
    by (rule unat_vsize)
  with ge have "vsize (buffer_o this') \<le> capacity (buffer_o this')"
    by (simp add: word_le_nat_alt)
  with dvd ge show ?thesis
    by (simp add: NtIoOutputBuffer_data_def NtIoOutputBuffer_size_def)
qed

lemma write_130:
  "write_all al_example [(replicate 130 0, 130)] (new_NtIoOutputBuffer 5) =
     (Inr (), \<lparr>buffer_o = \<lparr>elems = replicate 130 0, capacity = 192\<rparr>, memoryStepping = 5\<rparr>)"
proof -
  define s0 where "s0 = new_NtIoOutputBuffer 5"
  have t: "newContainerSize_of (vsize (buffer_o s0) + 130)
      (2 ^ (unat (memoryStepping s0) + 1) - 1) = 192"
    by (simp add: s0_def new_NtIoOutputBuffer_def vsize_def newContainerSize_of_def)
  have "NtIoOutputBuffer_write al_example (replicate 130 0) 130 s0 =
      (if capacity (buffer_o s0) < 192
          \<and> (max_size al_example < 192 \<or> \<not> can_allocate al_example 192)
       then (Inl (NtIoException eioAllocation), s0)
       else (Inr (),
             s0\<lparr>buffer_o :=
               \<lparr>elems = elems (buffer_o s0) @ take (unat (130 :: size_t)) (replicate 130 0),
                capacity = (if capacity (buffer_o s0) < 192 then 192
                            else capacity (buffer_o s0))\<rparr>\<rparr>))"
    unfolding t [symmetric]
    by (rule write_grows(2)) (simp_all add: s0_def new_NtIoOutputBuffer_def)
  then have "NtIoOutputBuffer_write al_example (replicate 130 0) 130 s0 =
      (Inr (), \<lparr>buffer_o = \<lparr>elems = replicate 130 0, capacity = 192\<rparr>, memoryStepping = 5\<rparr>)"
    by (simp add: s0_def new_NtIoOutputBuffer_def al_example_def PTRDIFF_MAX_def)
  then show ?thesis
    by (simp add: s0_def)
qed

theorem capacity_invariant_witness:
  "(5 :: size_t) \<le> 29 \<and> max_size al_example \<le> PTRDIFF_MAX
   \<and> write_all al_example [(replicate 130 0, 130)] (new_NtIoOutputBuffer 5) =
     (Inr (), \<lparr>buffer_o = \<lparr>elems = replicate 130 0, capacity = 192\<rparr>, memoryStepping = 5\<rparr>)
   \<and> (2 ^ (unat (5 :: size_t) + 1) dvd
        unat (capacity (buffer_o
          \<lparr>buffer_o = \<lparr>elems = replicate 130 0, capacity = 192\<rparr>, memoryStepping = 5\<rparr>))
      \<and> length (NtIoOutputBuffer_data
          \<lparr>buffer_o = \<lparr>elems = replicate 130 0, capacity = 192\<rparr>, memoryStepping = 5\<rparr>)
        \<le> unat (capacity (buffer_o
          \<lparr>buffer_o = \<lparr>elems = replicate 130 0, capacity = 192\<rparr>, memoryStepping = 5\<rparr>))
      \<and> NtIoOutputBuffer_size
          \<lparr>buffer_o = \<lparr>elems = replicate 130 0, capacity = 192\<rparr>, memoryStepping = 5\<rparr>
        \<le> capacity (buffer_o
          \<lparr>buffer_o = \<lparr>elems = replicate 130 0, capacity = 192\<rparr>, memoryStepping = 5\<rparr>))"
proof -
  have 1: "(5 :: size_t) \<le> 29"
    by simp
  have 2: "max_size al_example \<le> PTRDIFF_MAX"
    by (simp add: al_example_def)
  have 3: "(Inr () :: failure + unit) \<noteq> Inl Unexpected" "(Inr () :: failure + unit) \<noteq> Inl Undefined"
    by simp_all
  note inv = capacity_invariant [OF 1 2 write_130 3]
  show ?thesis
    by (rule conjI [OF 1 conjI [OF 2 conjI [OF write_130 inv]]])
qed

lemma three_not_power_of_two: "\<not> power_of_two_multiple 64 192"
proof
  assume "power_of_two_multiple 64 192"
  then obtain j :: nat where "192 = 2 ^ j * (64 :: nat)"
    unfolding power_of_two_multiple_def by blast
  then have three: "(2 :: nat) ^ j = 3"
    by simp
  show False
  proof (cases j)
    case 0
    with three show False by simp
  next
    case (Suc i)
    then have "even ((2 :: nat) ^ j)"
      by simp
    with three show False
      by simp
  qed
qed

text \<open>
  C5 as stated fails: one write of 130 bytes with memory stepping 5 leaves the capacity
  192, three times the step size 64, and three is not a power of two.
\<close>

theorem capacity_power_of_two_counterexample:
  "write_all al_example [(replicate 130 0, 130)] (new_NtIoOutputBuffer 5) =
     (Inr (), \<lparr>buffer_o = \<lparr>elems = replicate 130 0, capacity = 192\<rparr>, memoryStepping = 5\<rparr>)
   \<and> unat (192 :: size_t) = 3 * 2 ^ (unat (5 :: size_t) + 1)
   \<and> \<not> power_of_two_multiple (2 ^ (unat (5 :: size_t) + 1)) (unat (192 :: size_t))"
  using write_130 three_not_power_of_two by simp

lemma write_all_content:
  assumes "length (elems (buffer_o this)) < 2 ^ 64"
    and "\<forall>c\<in>set chunks. length c < 2 ^ 64"
    and "write_all al (map sized chunks) this = (Inr (), this')"
  shows "elems (buffer_o this') = elems (buffer_o this) @ concat chunks
    \<and> length (elems (buffer_o this')) < 2 ^ 64"
  using assms
proof (induction chunks arbitrary: this)
  case Nil
  then show ?case by simp
next
  case (Cons c chunks)
  obtain out1 this1
    where w: "NtIoOutputBuffer_write al c (word_of_nat (length c)) this = (out1, this1)"
    by (cases "NtIoOutputBuffer_write al c (word_of_nat (length c)) this")
  with Cons.prems(3) have out1: "out1 = Inr ()"
    by (cases out1) simp_all
  with w Cons.prems(3) have rest: "write_all al (map sized chunks) this1 = (Inr (), this')"
    by simp
  from Cons.prems(2) have n: "unat (word_of_nat (length c) :: size_t) = length c"
    by (simp add: unat_of_nat)
  from w out1 have w': "NtIoOutputBuffer_write al c (word_of_nat (length c)) this = (Inr (), this1)"
    by simp
  from w' Cons.prems(1)
  have "elems (buffer_o this1) = elems (buffer_o this) @ take (unat (word_of_nat (length c) :: size_t)) c"
    and "length (elems (buffer_o this)) + unat (word_of_nat (length c) :: size_t) < 2 ^ 64"
    by (rule write_success)+
  with n have e1: "elems (buffer_o this1) = elems (buffer_o this) @ c"
    and l1: "length (elems (buffer_o this1)) < 2 ^ 64"
    by simp_all
  from Cons.prems(2) have "\<forall>c\<in>set chunks. length c < 2 ^ 64"
    by simp
  with l1 rest have "elems (buffer_o this') = elems (buffer_o this1) @ concat chunks
    \<and> length (elems (buffer_o this')) < 2 ^ 64"
    by (intro Cons.IH)
  then have a: "elems (buffer_o this') = elems (buffer_o this1) @ concat chunks"
    and b: "length (elems (buffer_o this')) < 2 ^ 64"
    by (rule conjunct1, rule conjunct2)
  from a e1 have "elems (buffer_o this') = elems (buffer_o this) @ concat (c # chunks)"
    by simp
  with b show ?case
    by (intro conjI)
qed

lemma write_all_succeeds:
  assumes "memoryStepping this \<le> 29"
    and "\<forall>n. n \<le> max_size al \<longrightarrow> can_allocate al n"
    and "length (elems (buffer_o this)) + length (concat chunks)
        + 2 ^ (unat (memoryStepping this) + 1) \<le> unat (max_size al)"
  shows "\<exists>this'. write_all al (map sized chunks) this = (Inr (), this')"
  using assms
proof (induction chunks arbitrary: this)
  case Nil
  then show ?case by simp
next
  case (Cons c chunks)
  define L where "L = length (elems (buffer_o this))"
  define k where "k = unat (memoryStepping this) + 1"
  define M where "M = unat (max_size al)"
  have M: "M < 2 ^ 64"
    unfolding M_def using unsigned_less [of "max_size al", where 'a = nat] by simp
  from Cons.prems(3) have room: "L + length c + length (concat chunks) + 2 ^ k \<le> M"
    by (simp add: L_def k_def M_def)
  with M have "length c < 2 ^ 64"
    by simp
  then have n: "unat (word_of_nat (length c) :: size_t) = length c"
    by (simp add: unat_of_nat)
  have "\<exists>this1. NtIoOutputBuffer_write al c (word_of_nat (length c)) this = (Inr (), this1)
      \<and> memoryStepping this1 = memoryStepping this
      \<and> length (elems (buffer_o this1)) = L + length c"
  proof (cases "length c = 0")
    case True
    then show ?thesis
      by (simp add: NtIoOutputBuffer_write_def L_def)
  next
    case False
    with n have nz: "(word_of_nat (length c) :: size_t) \<noteq> 0"
      by (metis unat_0)
    from n have src: "unat (word_of_nat (length c) :: size_t) \<le> length c"
      by simp
    have "0 < (2 :: nat) ^ k"
      by simp
    with room M have "L + length c + (2 ^ k - 1) < 2 ^ 64"
      by linarith
    with n have fit: "length (elems (buffer_o this)) + unat (word_of_nat (length c) :: size_t)
        + (2 ^ (unat (memoryStepping this) + 1) - 1) < 2 ^ 64"
      by (simp add: L_def k_def)
    define target where "target = newContainerSize_of
      (vsize (buffer_o this) + word_of_nat (length c)) (2 ^ (unat (memoryStepping this) + 1) - 1)"
    have "least_multiple_above (2 ^ (unat (memoryStepping this) + 1))
        (length (elems (buffer_o this)) + unat (word_of_nat (length c) :: size_t)) (unat target)"
      unfolding target_def using nz Cons.prems(1) src fit by (rule write_grows(1))
    then have "unat target \<le> length (elems (buffer_o this))
        + unat (word_of_nat (length c) :: size_t) + (2 ^ (unat (memoryStepping this) + 1) - 1)"
      by (intro least_multiple_above_upper) simp_all
    with n room have "unat target \<le> M"
      unfolding L_def k_def by linarith
    then have "target \<le> max_size al"
      by (simp add: M_def word_le_nat_alt)
    with Cons.prems(2) have ok: "\<not> max_size al < target" "can_allocate al target"
      by simp_all
    have "NtIoOutputBuffer_write al c (word_of_nat (length c)) this =
      (if capacity (buffer_o this) < target \<and> (max_size al < target \<or> \<not> can_allocate al target)
       then (Inl (NtIoException eioAllocation), this)
       else (Inr (),
             this\<lparr>buffer_o :=
               \<lparr>elems = elems (buffer_o this) @ take (unat (word_of_nat (length c) :: size_t)) c,
                capacity = (if capacity (buffer_o this) < target then target
                            else capacity (buffer_o this))\<rparr>\<rparr>))"
      unfolding target_def using nz Cons.prems(1) src fit by (rule write_grows(2))
    with ok n show ?thesis
      by (simp add: L_def)
  qed
  then obtain this1
    where w: "NtIoOutputBuffer_write al c (word_of_nat (length c)) this = (Inr (), this1)"
      and same: "memoryStepping this1 = memoryStepping this"
      and len: "length (elems (buffer_o this1)) = L + length c"
    by blast
  from room same len
  have "length (elems (buffer_o this1)) + length (concat chunks)
        + 2 ^ (unat (memoryStepping this1) + 1) \<le> unat (max_size al)"
    by (simp add: k_def M_def)
  with Cons.prems(1,2) same
  have "\<exists>this'. write_all al (map sized chunks) this1 = (Inr (), this')"
    by (intro Cons.IH) simp_all
  with w show ?case
    by simp
qed

lemma write_chunks_example:
  "write_all al_example (map sized chunks_example) (new_NtIoOutputBuffer 5) =
     (Inr (), \<lparr>buffer_o = \<lparr>elems = [1, 2, 3, 4, 5], capacity = 64\<rparr>, memoryStepping = 5\<rparr>)"
  by (simp add: chunks_example_def new_NtIoOutputBuffer_def NtIoOutputBuffer_write_def
      Let_def stepSize_5 newContainerSize_of_def vsize_def reserve_def resize_def memcpy_def
      al_example_def PTRDIFF_MAX_def)

text \<open>
  C4: for every list of chunks, when the writes of the chunks in order on a new output
  buffer all succeed, \<open>data()\<close> is the concatenation of the chunks, whatever the
  chunking, \<open>size()\<close> is the number of bytes written, and an input buffer over
  \<open>data()\<close> and \<open>size()\<close> reads the same bytes back and is then empty. The writes
  do all succeed when the memory stepping is at most 29, no allocation within the
  largest size of the vector fails and that size exceeds the bytes written by a step.
\<close>

theorem NtIoOutputBuffer_round_trip:
  assumes chunks: "\<forall>c\<in>set chunks. length c < 2 ^ 64"
  shows "(\<forall>this'. write_all al (map sized chunks) (new_NtIoOutputBuffer ms) = (Inr (), this') \<longrightarrow>
           NtIoOutputBuffer_data this' = concat chunks
           \<and> unat (NtIoOutputBuffer_size this') = length (concat chunks)
           \<and> (\<forall>requestBuffer. length (concat chunks) \<le> length requestBuffer \<longrightarrow>
                NtIoInputBuffer_read requestBuffer (NtIoOutputBuffer_size this')
                  (new_NtIoInputBuffer (NtIoOutputBuffer_data this')
                     (NtIoOutputBuffer_size this')) =
                (Inr (), concat chunks @ drop (length (concat chunks)) requestBuffer,
                 \<lparr>size_i = 0, buffer_i = []\<rparr>)))
       \<and> (ms \<le> 29 \<and> (\<forall>n. n \<le> max_size al \<longrightarrow> can_allocate al n)
          \<and> length (concat chunks) + 2 ^ (unat ms + 1) \<le> unat (max_size al) \<longrightarrow>
          (\<exists>this'. write_all al (map sized chunks) (new_NtIoOutputBuffer ms) = (Inr (), this')))"
proof (intro conjI allI impI)
  fix this'
  assume w: "write_all al (map sized chunks) (new_NtIoOutputBuffer ms) = (Inr (), this')"
  have "length (elems (buffer_o (new_NtIoOutputBuffer ms))) < 2 ^ 64"
    by (simp add: new_NtIoOutputBuffer_def)
  from this chunks w
  have "elems (buffer_o this') = elems (buffer_o (new_NtIoOutputBuffer ms)) @ concat chunks
    \<and> length (elems (buffer_o this')) < 2 ^ 64"
    by (rule write_all_content)
  then have "elems (buffer_o this') = elems (buffer_o (new_NtIoOutputBuffer ms)) @ concat chunks"
    and len: "length (elems (buffer_o this')) < 2 ^ 64"
    by (rule conjunct1, rule conjunct2)
  then have data: "elems (buffer_o this') = concat chunks"
    by (simp add: new_NtIoOutputBuffer_def)
  from data show d: "NtIoOutputBuffer_data this' = concat chunks"
    by (simp add: NtIoOutputBuffer_data_def)
  from len have "unat (vsize (buffer_o this')) = length (elems (buffer_o this'))"
    by (rule unat_vsize)
  with data show s: "unat (NtIoOutputBuffer_size this') = length (concat chunks)"
    by (simp add: NtIoOutputBuffer_size_def)
  fix requestBuffer :: "int8_t list"
  assume room: "length (concat chunks) \<le> length requestBuffer"
  define inp where "inp = new_NtIoInputBuffer (NtIoOutputBuffer_data this')
    (NtIoOutputBuffer_size this')"
  have "NtIoInputBuffer_read requestBuffer (NtIoOutputBuffer_size this') inp =
     (Inr (),
      take (unat (NtIoOutputBuffer_size this')) (buffer_i inp)
        @ drop (unat (NtIoOutputBuffer_size this')) requestBuffer,
      \<lparr>size_i = size_i inp - NtIoOutputBuffer_size this',
       buffer_i = drop (unat (NtIoOutputBuffer_size this')) (buffer_i inp)\<rparr>)"
    using room d s by (intro NtIoInputBuffer_read_ok) (simp_all add: inp_def new_NtIoInputBuffer_def)
  with d s show "NtIoInputBuffer_read requestBuffer (NtIoOutputBuffer_size this')
      (new_NtIoInputBuffer (NtIoOutputBuffer_data this') (NtIoOutputBuffer_size this')) =
    (Inr (), concat chunks @ drop (length (concat chunks)) requestBuffer,
     \<lparr>size_i = 0, buffer_i = []\<rparr>)"
    by (simp add: inp_def new_NtIoInputBuffer_def)
next
  assume a: "ms \<le> 29 \<and> (\<forall>n. n \<le> max_size al \<longrightarrow> can_allocate al n)
          \<and> length (concat chunks) + 2 ^ (unat ms + 1) \<le> unat (max_size al)"
  then show "\<exists>this'. write_all al (map sized chunks) (new_NtIoOutputBuffer ms) = (Inr (), this')"
    by (intro write_all_succeeds) (simp_all add: new_NtIoOutputBuffer_def)
qed

theorem NtIoOutputBuffer_round_trip_witness:
  "list_all (\<lambda>c. length c < 2 ^ 64) chunks_example
   \<and> concat chunks_example = [1, 2, 3, 4, 5]
   \<and> write_all al_example (map sized chunks_example) (new_NtIoOutputBuffer 5) =
       (Inr (), \<lparr>buffer_o = \<lparr>elems = [1, 2, 3, 4, 5], capacity = 64\<rparr>, memoryStepping = 5\<rparr>)
   \<and> write_all al_example (map sized [[1, 2, 3, 4, 5]]) (new_NtIoOutputBuffer 5) =
       (Inr (), \<lparr>buffer_o = \<lparr>elems = [1, 2, 3, 4, 5], capacity = 64\<rparr>, memoryStepping = 5\<rparr>)
   \<and> NtIoOutputBuffer_data
        \<lparr>buffer_o = \<lparr>elems = [1, 2, 3, 4, 5], capacity = 64\<rparr>, memoryStepping = 5\<rparr> =
       concat chunks_example
   \<and> NtIoOutputBuffer_size
        \<lparr>buffer_o = \<lparr>elems = [1, 2, 3, 4, 5], capacity = 64\<rparr>, memoryStepping = 5\<rparr> = 5
   \<and> NtIoInputBuffer_read [0, 0, 0, 0, 0, 0] 5 (new_NtIoInputBuffer [1, 2, 3, 4, 5] 5) =
       (Inr (), [1, 2, 3, 4, 5, 0], \<lparr>size_i = 0, buffer_i = []\<rparr>)"
proof -
  define s5 :: NtIoOutputBuffer
    where "s5 = \<lparr>buffer_o = \<lparr>elems = [1, 2, 3, 4, 5], capacity = 64\<rparr>, memoryStepping = 5\<rparr>"
  have h: "\<forall>c\<in>set chunks_example. length c < 2 ^ 64"
    by (simp add: chunks_example_def)
  then have h': "list_all (\<lambda>c. length c < 2 ^ 64) chunks_example"
    by (simp add: list_all_iff)
  have cc: "concat chunks_example = [1, 2, 3, 4, 5]"
    by (simp add: chunks_example_def)
  have w: "write_all al_example (map sized chunks_example) (new_NtIoOutputBuffer 5) = (Inr (), s5)"
    unfolding s5_def by (rule write_chunks_example)
  have w1: "write_all al_example (map sized [[1, 2, 3, 4, 5]]) (new_NtIoOutputBuffer 5) =
      (Inr (), s5)"
    by (simp add: s5_def new_NtIoOutputBuffer_def NtIoOutputBuffer_write_def
      Let_def stepSize_5 newContainerSize_of_def vsize_def reserve_def resize_def memcpy_def
      al_example_def PTRDIFF_MAX_def)
  note t = NtIoOutputBuffer_round_trip [OF h, of al_example 5, THEN conjunct1, rule_format, OF w]
  from t have d: "NtIoOutputBuffer_data s5 = concat chunks_example"
    by (rule conjunct1)
  have sz: "NtIoOutputBuffer_size s5 = 5"
    by (simp add: s5_def NtIoOutputBuffer_size_def vsize_def)
  have room: "length (concat chunks_example) \<le> length [0, 0, 0, 0, 0, 0 :: int8_t]"
    by (simp add: cc)
  from t have "\<forall>requestBuffer. length (concat chunks_example) \<le> length requestBuffer \<longrightarrow>
      NtIoInputBuffer_read requestBuffer (NtIoOutputBuffer_size s5)
        (new_NtIoInputBuffer (NtIoOutputBuffer_data s5) (NtIoOutputBuffer_size s5)) =
      (Inr (), concat chunks_example @ drop (length (concat chunks_example)) requestBuffer,
       \<lparr>size_i = 0, buffer_i = []\<rparr>)"
    by (elim conjE)
  from this [rule_format, OF room] have readback: "NtIoInputBuffer_read [0, 0, 0, 0, 0, 0] 5 (new_NtIoInputBuffer [1, 2, 3, 4, 5] 5) =
       (Inr (), [1, 2, 3, 4, 5, 0], \<lparr>size_i = 0, buffer_i = []\<rparr>)"
    unfolding d sz cc by simp
  from h' cc w w1 d sz readback show ?thesis
    unfolding s5_def by (intro conjI)
qed

end
